theory Spec2Isabelle
  imports Complex_Main "HOL-Library.Char_ord" "HOL-Library.List_Lexorder" "HOL-Library.Log_Nat"
begin

section \<open>The game info cache of UI/GameInfoCache.cpp\<close>

text \<open>
  A shallow embedding of \<^verbatim>\<open>UI/GameInfoCache.cpp\<close>. The cache maps a game path to a
  pointer to a \<^verbatim>\<open>GameInfo\<close> object; work items keep a second pointer to the same object,
  and \<^verbatim>\<open>GetInfo\<close> deletes objects. Pointers are therefore addresses into an explicit store
  of live objects, and a dereference of an address that is not live is the fault
  \<open>UseAfterFree\<close> (undefined behaviour in C++).

  Every lock scope of the source (a block that starts with \<^verbatim>\<open>lock_guard\<close>) is one function
  of the model, so the states between two such functions are the states another thread
  can see.
\<close>

subsection \<open>Data\<close>

text \<open>
  The enumeration is declared in a header that is not among the sources. The three named
  values are the ones this file assigns; \<open>FILETYPE_UNKNOWN\<close> stands for the value a record
  has before a work item assigns one.
\<close>

datatype GameFileType = FILETYPE_UNKNOWN | FILETYPE_PSP_PBP | FILETYPE_PSP_ELF | FILETYPE_PSP_ISO

text \<open>The metadata table is only handed to the metadata codec, never inspected here.\<close>

type_synonym ParamSFOData = "(string \<times> string) list"

text \<open>
  \<^verbatim>\<open>struct GameInfo\<close>, with the fields this file reads and writes. A \<^verbatim>\<open>std::string\<close> used as
  a byte buffer is a \<open>string\<close>; a \<^verbatim>\<open>Texture *\<close> is \<open>None\<close> when null and \<open>Some\<close> of the
  address of a texture object otherwise. The mutex field carries no data.
\<close>

record GameInfo =
  fileType :: GameFileType
  paramSFO :: ParamSFOData
  title :: string
  iconTextureData :: string
  iconTexture :: "nat option"
  pic0TextureData :: string
  pic0Texture :: "nat option"
  pic1TextureData :: string
  pic1Texture :: "nat option"
  wantBG :: bool
  lastAccessedTime :: real
  timeIconWasLoaded :: real
  timePic0WasLoaded :: real
  timePic1WasLoaded :: real

text \<open>
  Modelled from the spec: the constructor \<^verbatim>\<open>GameInfo::GameInfo()\<close>, declared in GameInfo.h,
  which is not among the sources. The spec's record is created empty (no kind, empty title
  and metadata table, all three artifact slots \<open>Empty\<close>); the time fields start at 0.
\<close>

definition GameInfo_new :: GameInfo where
  "GameInfo_new =
     \<lparr> fileType = FILETYPE_UNKNOWN, paramSFO = [], title = [],
       iconTextureData = [], iconTexture = None,
       pic0TextureData = [], pic0Texture = None,
       pic1TextureData = [], pic1Texture = None,
       wantBG = False, lastAccessedTime = 0,
       timeIconWasLoaded = 0, timePic0WasLoaded = 0, timePic1WasLoaded = 0 \<rparr>"

text \<open>\<^verbatim>\<open>class GameInfoWorkItem\<close>: its members \<^verbatim>\<open>gamePath_\<close> and \<^verbatim>\<open>info_\<close>, the path and the
  pointer given to its constructor (a name of the logic cannot end in an underscore).\<close>

record GameInfoWorkItem =
  item_gamePath :: string
  item_info :: nat

text \<open>
  \<^verbatim>\<open>class GameInfoCache\<close> together with the objects it points to: \<open>info_map\<close> is the
  \<^verbatim>\<open>std::map\<close> member \<^verbatim>\<open>info_\<close> (its entries in key order), \<open>gameInfoWQ\<close> the items added
  to the work queue \<^verbatim>\<open>gameInfoWQ_\<close>
  and not yet run, \<open>infos\<close> the live \<^verbatim>\<open>GameInfo\<close> objects by address, \<open>textures\<close> the
  addresses of the live \<^verbatim>\<open>Texture\<close> objects. \<open>info_next\<close> and \<open>texture_next\<close> lie above every
  address \<^verbatim>\<open>new\<close> has handed out for an object of the kind. \<open>clock_reads\<close> counts the calls of
  \<^verbatim>\<open>time_now_d\<close>.
\<close>

record GameInfoCache =
  info_map :: "(string \<times> nat) list"
  gameInfoWQ :: "GameInfoWorkItem list"
  infos :: "nat \<rightharpoonup> GameInfo"
  info_next :: nat
  textures :: "nat set"
  texture_next :: nat
  clock_reads :: nat

datatype fault = UseAfterFree nat

datatype PBPSubFile = PBP_PARAM_SFO | PBP_ICON0_PNG | PBP_PIC1_PNG

text \<open>
  The collaborators of the file, whose code is elsewhere: the clock (\<open>time_now_d\<close> gives
  the value of its n-th reading), the PBP reader, the block device and ISO file system
  over an image path, the metadata codec, the PNG decoder, and the allocator behind
  \<^verbatim>\<open>new GameInfo()\<close>: \<open>new_reuses_deleted p\<close> tells whether a \<^verbatim>\<open>new\<close> that directly follows the
  \<^verbatim>\<open>delete\<close> of the record at address \<open>p\<close> hands out that address again.
\<close>

record externals =
  time_now_d :: "nat \<Rightarrow> real"
  PBP_IsValid :: "string \<Rightarrow> bool"
  PBP_GetSubFile :: "string \<Rightarrow> PBPSubFile \<Rightarrow> string"
  PBP_GetSubFileSize :: "string \<Rightarrow> PBPSubFile \<Rightarrow> nat"
  PBP_GetSubFileAsString :: "string \<Rightarrow> PBPSubFile \<Rightarrow> string"
  constructBlockDevice :: "string \<Rightarrow> bool"
  ISO_GetFileInfo :: "string \<Rightarrow> string \<Rightarrow> bool \<times> nat"
  ISO_OpenFile :: "string \<Rightarrow> string \<Rightarrow> nat"
  ISO_ReadFile :: "string \<Rightarrow> string \<Rightarrow> nat \<Rightarrow> string"
  ReadSFO :: "string \<Rightarrow> ParamSFOData \<Rightarrow> ParamSFOData"
  GetValueString :: "ParamSFOData \<Rightarrow> string \<Rightarrow> string"
  LoadPNG :: "string \<Rightarrow> bool"
  new_reuses_deleted :: "nat \<Rightarrow> bool"

subsection \<open>Helpers\<close>

text \<open>
  Modelled from the spec: \<^verbatim>\<open>startsWith\<close> and \<^verbatim>\<open>endsWith\<close> of base/stringutil.h, which is
  not among the sources: the path starts with the prefix, the path ends in the suffix.
\<close>

definition startsWith :: "string \<Rightarrow> string \<Rightarrow> bool" where
  "startsWith str what = (take (length what) str = what)"

definition endsWith :: "string \<Rightarrow> string \<Rightarrow> bool" where
  "endsWith str what =
     (length what \<le> length str \<and> drop (length str - length what) str = what)"

text \<open>Sequencing of steps that can fault.\<close>

definition seq :: "fault + 'a \<Rightarrow> ('a \<Rightarrow> fault + 'b) \<Rightarrow> fault + 'b" where
  "seq m f = (case m of Inl e \<Rightarrow> Inl e | Inr x \<Rightarrow> f x)"

text \<open>A read and a write through a \<^verbatim>\<open>GameInfo *\<close>.\<close>

definition deref :: "nat \<Rightarrow> GameInfoCache \<Rightarrow> fault + GameInfo" where
  "deref p s = (case infos s p of None \<Rightarrow> Inl (UseAfterFree p) | Some i \<Rightarrow> Inr i)"

definition modify :: "nat \<Rightarrow> (GameInfo \<Rightarrow> GameInfo) \<Rightarrow> GameInfoCache \<Rightarrow> fault + GameInfoCache" where
  "modify p f s =
     (case infos s p of
        None \<Rightarrow> Inl (UseAfterFree p)
      | Some i \<Rightarrow> Inr (s\<lparr>infos := (infos s)(p \<mapsto> f i)\<rparr>))"

text \<open>\<^verbatim>\<open>std::string::resize\<close>, and a read of \<open>d\<close> into the front of a buffer.\<close>

definition resize :: "nat \<Rightarrow> string \<Rightarrow> string" where
  "resize n str = take n str @ replicate (n - length str) (CHR 0x00)"

definition overwrite :: "string \<Rightarrow> string \<Rightarrow> string" where
  "overwrite d buf = take (length buf) d @ drop (length d) buf"

text \<open>
  \<^verbatim>\<open>ReadFileToString\<close> on the file system of image \<open>img\<close>, in two parts: whether it gets
  past its two early returns (the file exists and opens), and the buffer's contents after
  \<^verbatim>\<open>resize\<close> and \<^verbatim>\<open>ReadFile\<close>. \<open>None\<close> is the result \<^verbatim>\<open>false\<close>, where the buffer is not
  touched; \<open>Some c\<close> is the result \<^verbatim>\<open>true\<close> with the buffer's new contents.
\<close>

definition file_opens :: "externals \<Rightarrow> string \<Rightarrow> string \<Rightarrow> bool" where
  "file_opens ext img filename =
     (if \<not> fst (ISO_GetFileInfo ext img filename) then False
      else if ISO_OpenFile ext img filename = 0 then False
      else True)"

definition file_read :: "externals \<Rightarrow> string \<Rightarrow> string \<Rightarrow> string \<Rightarrow> string" where
  "file_read ext img filename contents =
     (let sz = snd (ISO_GetFileInfo ext img filename)
      in overwrite (ISO_ReadFile ext img filename sz) (resize sz contents))"

definition ReadFileToString :: "externals \<Rightarrow> string \<Rightarrow> string \<Rightarrow> string \<Rightarrow> string option" where
  "ReadFileToString ext img filename contents =
     (if file_opens ext img filename then Some (file_read ext img filename contents) else None)"

subsection \<open>The work item\<close>

text \<open>The PBP branch of \<^verbatim>\<open>GameInfoWorkItem::run\<close>, after the container was found valid.\<close>

definition run_PBP :: "externals \<Rightarrow> string \<Rightarrow> nat \<Rightarrow> GameInfoCache \<Rightarrow> fault + GameInfoCache" where
  "run_PBP ext path p s =
     seq (modify p (\<lambda>i. i\<lparr>fileType := FILETYPE_PSP_PBP\<rparr>) s) (\<lambda>s1.
     seq (modify p (\<lambda>i.
            let sfo = ReadSFO ext (PBP_GetSubFile ext path PBP_PARAM_SFO) (paramSFO i)
            in i\<lparr>paramSFO := sfo, title := GetValueString ext sfo ''TITLE''\<rparr>) s1) (\<lambda>s2.
     seq (modify p (\<lambda>i.
            if PBP_GetSubFileSize ext path PBP_ICON0_PNG > 0
            then i\<lparr>iconTextureData := PBP_GetSubFileAsString ext path PBP_ICON0_PNG\<rparr>
            else i) s2) (\<lambda>s3.
     seq (deref p s3) (\<lambda>i3.
       if wantBG i3
       then modify p (\<lambda>i.
              if PBP_GetSubFileSize ext path PBP_PIC1_PNG > 0
              then i\<lparr>pic1TextureData := PBP_GetSubFileAsString ext path PBP_PIC1_PNG\<rparr>
              else i) s3
       else Inr s3))))"

text \<open>
  A call \<^verbatim>\<open>ReadFileToString(&umd, name, &info_->field, &info_->lock)\<close>: the record is
  touched only when the file exists and opens.
\<close>

definition read_into ::
  "externals \<Rightarrow> string \<Rightarrow> string \<Rightarrow> nat \<Rightarrow> (GameInfo \<Rightarrow> string) \<Rightarrow>
   (string \<Rightarrow> GameInfo \<Rightarrow> GameInfo) \<Rightarrow> GameInfoCache \<Rightarrow> fault + GameInfoCache" where
  "read_into ext img filename p get put s =
     (if file_opens ext img filename
      then modify p (\<lambda>i. put (file_read ext img filename (get i)) i) s
      else Inr s)"

text \<open>The ISO branch, after the block device was constructed.\<close>

definition run_ISO :: "externals \<Rightarrow> string \<Rightarrow> nat \<Rightarrow> GameInfoCache \<Rightarrow> fault + GameInfoCache" where
  "run_ISO ext path p s =
     seq (case ReadFileToString ext path ''/PSP_GAME/PARAM.SFO'' [] of
            None \<Rightarrow> Inr s
          | Some paramSFOcontents \<Rightarrow>
              modify p (\<lambda>i.
                let sfo = ReadSFO ext paramSFOcontents (paramSFO i)
                in i\<lparr>paramSFO := sfo, title := GetValueString ext sfo ''TITLE''\<rparr>) s) (\<lambda>s1.
     seq (read_into ext path ''/PSP_GAME/ICON0.PNG'' p iconTextureData
            (\<lambda>c i. i\<lparr>iconTextureData := c\<rparr>) s1) (\<lambda>s2.
     seq (deref p s2) (\<lambda>i2.
       if wantBG i2
       then seq (read_into ext path ''/PSP_GAME/PIC0.PNG'' p pic0TextureData
                   (\<lambda>c i. i\<lparr>pic0TextureData := c\<rparr>) s2) (\<lambda>s3.
            read_into ext path ''/PSP_GAME/PIC1.PNG'' p pic1TextureData
              (\<lambda>c i. i\<lparr>pic1TextureData := c\<rparr>) s3)
       else Inr s2)))"

text \<open>\<^verbatim>\<open>GameInfoWorkItem::run\<close>.\<close>

definition run :: "externals \<Rightarrow> GameInfoWorkItem \<Rightarrow> GameInfoCache \<Rightarrow> fault + GameInfoCache" where
  "run ext item s =
     (if startsWith (item_gamePath item) ''ms0:/PSP/GAME'' then Inr s
      else if endsWith (item_gamePath item) ''.PBP'' then
        (if \<not> PBP_IsValid ext (item_gamePath item) then Inr s
         else run_PBP ext (item_gamePath item) (item_info item) s)
      else if endsWith (item_gamePath item) ''.elf'' \<or> endsWith (item_gamePath item) ''.prx'' then
        modify (item_info item) (\<lambda>i. i\<lparr>fileType := FILETYPE_PSP_ELF\<rparr>) s
      else
        seq (modify (item_info item) (\<lambda>i. i\<lparr>fileType := FILETYPE_PSP_ISO\<rparr>) s) (\<lambda>s1.
          if \<not> constructBlockDevice ext (item_gamePath item) then Inr s1
          else run_ISO ext (item_gamePath item) (item_info item) s1))"

text \<open>
  The values of the type \<^verbatim>\<open>float\<close> that a \<^verbatim>\<open>double\<close> converts to (IEEE 754 binary32; a time
  stamp is a number, so there is no NaN), and the conversion, which rounds to the nearest
  \<^verbatim>\<open>float\<close> and a tie to the one with an even significand. \<open>pow2 e\<close> is \<open>2\<close> to the power \<open>e\<close>;
  \<open>binary_exponent x\<close> is the exponent \<open>e\<close> with \<open>pow2 e \<le> \<bar>x\<bar> < pow2 (e + 1)\<close>. Near \<open>x\<close> the
  values of \<^verbatim>\<open>float\<close> are the multiples of \<open>pow2 (e - 23)\<close> (24 bits of significand), below the
  smallest normal exponent \<open>- 126\<close> those of \<open>pow2 (- 149)\<close>; a result of magnitude \<open>pow2 128\<close> is
  out of range and becomes an infinity.
\<close>

datatype float = Finite real | PlusInfinity | MinusInfinity

definition pow2 :: "int \<Rightarrow> real" where
  "pow2 e = (if 0 \<le> e then 2 ^ nat e else 1 / 2 ^ nat (- e))"

definition binary_exponent :: "real \<Rightarrow> int" where
  "binary_exponent x =
     (if 1 \<le> \<bar>x\<bar> then int (floorlog 2 (nat \<lfloor>\<bar>x\<bar>\<rfloor>)) - 1
      else - int (floorlog 2 (nat (\<lceil>1 / \<bar>x\<bar>\<rceil> - 1))))"

definition round_to_even :: "real \<Rightarrow> int" where
  "round_to_even x =
     (let n = \<lfloor>x\<rfloor>; d = x - of_int n
      in if d < 1 / 2 then n else if 1 / 2 < d then n + 1 else if even n then n else n + 1)"

definition to_float :: "real \<Rightarrow> float" where
  "to_float x =
     (if x = 0 then Finite 0
      else let e = max (binary_exponent x) (- 126);
               ulp = pow2 (e - 23);
               r = of_int (round_to_even (x / ulp)) * ulp
           in if pow2 128 \<le> r then PlusInfinity
              else if r \<le> - pow2 128 then MinusInfinity
              else Finite r)"


subsection \<open>The work item, one access at a time\<close>

text \<open>
  The thread that runs a work item gives up the lock between the fields it writes, so
  another thread sees the record between two writes. What is left of a run is a small
  program over the accesses through \<^verbatim>\<open>info_\<close>: a write (one lock scope of \<^verbatim>\<open>run\<close>, or the
  unlocked assignment of \<^verbatim>\<open>fileType\<close>), tagged with the artifact slot whose buffer it fills,
  and the unlocked read of \<^verbatim>\<open>wantBG\<close>. Everything else \<^verbatim>\<open>run\<close> tests is a collaborator's
  answer, fixed by the path.
\<close>

datatype slot = Icon | Pic0 | Pic1

datatype prog =
    Done
  | Write "slot option" "GameInfo \<Rightarrow> GameInfo" prog
  | IfWantBG prog prog

text \<open>One access: the state after it and the rest of the program.\<close>

fun prog_step :: "nat \<Rightarrow> prog \<Rightarrow> GameInfoCache \<Rightarrow> fault + (GameInfoCache \<times> prog)" where
  "prog_step p Done s = Inr (s, Done)"
| "prog_step p (Write X f k) s = seq (modify p f s) (\<lambda>s'. Inr (s', k))"
| "prog_step p (IfWantBG k1 k2) s = seq (deref p s) (\<lambda>i. Inr (s, if wantBG i then k1 else k2))"

text \<open>All accesses of a program, one after the other with nothing between them.\<close>

fun exec_prog :: "nat \<Rightarrow> prog \<Rightarrow> GameInfoCache \<Rightarrow> fault + GameInfoCache" where
  "exec_prog p Done s = Inr s"
| "exec_prog p (Write X f k) s = seq (modify p f s) (exec_prog p k)"
| "exec_prog p (IfWantBG k1 k2) s =
     seq (deref p s) (\<lambda>i. if wantBG i then exec_prog p k1 s else exec_prog p k2 s)"

text \<open>The programs of the branches of \<^verbatim>\<open>run\<close>, in the order of \<open>run_PBP\<close>, \<open>run_ISO\<close> and \<open>run\<close>.\<close>

definition PBP_prog :: "externals \<Rightarrow> string \<Rightarrow> prog" where
  "PBP_prog ext path =
     Write None (\<lambda>i. i\<lparr>fileType := FILETYPE_PSP_PBP\<rparr>)
    (Write None (\<lambda>i.
            let sfo = ReadSFO ext (PBP_GetSubFile ext path PBP_PARAM_SFO) (paramSFO i)
            in i\<lparr>paramSFO := sfo, title := GetValueString ext sfo ''TITLE''\<rparr>)
    (Write (Some Icon) (\<lambda>i.
            if PBP_GetSubFileSize ext path PBP_ICON0_PNG > 0
            then i\<lparr>iconTextureData := PBP_GetSubFileAsString ext path PBP_ICON0_PNG\<rparr>
            else i)
    (IfWantBG
       (Write (Some Pic1) (\<lambda>i.
              if PBP_GetSubFileSize ext path PBP_PIC1_PNG > 0
              then i\<lparr>pic1TextureData := PBP_GetSubFileAsString ext path PBP_PIC1_PNG\<rparr>
              else i) Done)
       Done)))"

definition read_into_prog ::
  "externals \<Rightarrow> string \<Rightarrow> string \<Rightarrow> slot \<Rightarrow> (GameInfo \<Rightarrow> string) \<Rightarrow>
   (string \<Rightarrow> GameInfo \<Rightarrow> GameInfo) \<Rightarrow> prog \<Rightarrow> prog" where
  "read_into_prog ext img filename X get put k =
     (if file_opens ext img filename
      then Write (Some X) (\<lambda>i. put (file_read ext img filename (get i)) i) k
      else k)"

definition ISO_prog :: "externals \<Rightarrow> string \<Rightarrow> prog" where
  "ISO_prog ext path =
     (case ReadFileToString ext path ''/PSP_GAME/PARAM.SFO'' [] of
        None \<Rightarrow> (\<lambda>k. k)
      | Some paramSFOcontents \<Rightarrow>
          Write None (\<lambda>i.
            let sfo = ReadSFO ext paramSFOcontents (paramSFO i)
            in i\<lparr>paramSFO := sfo, title := GetValueString ext sfo ''TITLE''\<rparr>))
     (read_into_prog ext path ''/PSP_GAME/ICON0.PNG'' Icon iconTextureData
        (\<lambda>c i. i\<lparr>iconTextureData := c\<rparr>)
     (IfWantBG
        (read_into_prog ext path ''/PSP_GAME/PIC0.PNG'' Pic0 pic0TextureData
           (\<lambda>c i. i\<lparr>pic0TextureData := c\<rparr>)
        (read_into_prog ext path ''/PSP_GAME/PIC1.PNG'' Pic1 pic1TextureData
           (\<lambda>c i. i\<lparr>pic1TextureData := c\<rparr>) Done))
        Done))"

definition run_prog :: "externals \<Rightarrow> GameInfoWorkItem \<Rightarrow> prog" where
  "run_prog ext item =
     (if startsWith (item_gamePath item) ''ms0:/PSP/GAME'' then Done
      else if endsWith (item_gamePath item) ''.PBP'' then
        (if \<not> PBP_IsValid ext (item_gamePath item) then Done
         else PBP_prog ext (item_gamePath item))
      else if endsWith (item_gamePath item) ''.elf'' \<or> endsWith (item_gamePath item) ''.prx'' then
        Write None (\<lambda>i. i\<lparr>fileType := FILETYPE_PSP_ELF\<rparr>) Done
      else
        Write None (\<lambda>i. i\<lparr>fileType := FILETYPE_PSP_ISO\<rparr>)
          (if \<not> constructBlockDevice ext (item_gamePath item) then Done
           else ISO_prog ext (item_gamePath item)))"

subsection \<open>The cache\<close>

text \<open>The cache as constructed: an empty map, an empty queue, no objects.\<close>

definition GameInfoCache_new :: GameInfoCache where
  "GameInfoCache_new =
     \<lparr> info_map = [], gameInfoWQ = [], infos = Map.empty, info_next = 0,
       textures = {}, texture_next = 0, clock_reads = 0 \<rparr>"

text \<open>\<^verbatim>\<open>info_[gamePath] = info\<close> on a \<^verbatim>\<open>std::map\<close>: assign in place, or insert in key order.\<close>

fun map_assign :: "string \<Rightarrow> nat \<Rightarrow> (string \<times> nat) list \<Rightarrow> (string \<times> nat) list" where
  "map_assign k v [] = [(k, v)]"
| "map_assign k v ((k', v') # m) =
     (if k = k' then (k, v) # m
      else if k < k' then (k, v) # (k', v') # m
      else (k', v') # map_assign k v m)"

text \<open>\<^verbatim>\<open>new Texture()\<close>, \<^verbatim>\<open>delete\<close> of a texture pointer (nothing for null), \<^verbatim>\<open>time_now_d()\<close>.\<close>

definition new_Texture :: "GameInfoCache \<Rightarrow> nat \<times> GameInfoCache" where
  "new_Texture s =
     (texture_next s,
      s\<lparr>textures := insert (texture_next s) (textures s), texture_next := Suc (texture_next s)\<rparr>)"

definition delete_Texture :: "nat option \<Rightarrow> GameInfoCache \<Rightarrow> GameInfoCache" where
  "delete_Texture t s = (case t of None \<Rightarrow> s | Some x \<Rightarrow> s\<lparr>textures := textures s - {x}\<rparr>)"

definition read_clock :: "externals \<Rightarrow> GameInfoCache \<Rightarrow> real \<times> GameInfoCache" where
  "read_clock ext s = (time_now_d ext (clock_reads s), s\<lparr>clock_reads := Suc (clock_reads s)\<rparr>)"

text \<open>
  The three lock scopes of \<^verbatim>\<open>GetInfo\<close> that decode a buffer (lines 233 to 273), each
  written field by field as the source has it. The second and the third delete and null
  \<^verbatim>\<open>iconTexture\<close> when their own decoding fails.
\<close>

definition decode_icon :: "externals \<Rightarrow> nat \<Rightarrow> GameInfoCache \<Rightarrow> fault + GameInfoCache" where
  "decode_icon ext info s =
     seq (deref info s) (\<lambda>i.
       if length (iconTextureData i) \<noteq> 0 then
         (let (t, s1) = new_Texture s;
              i1 = i\<lparr>iconTexture := Some t\<rparr>
          in if LoadPNG ext (iconTextureData i1) then
               (let (now, s2) = read_clock ext s1;
                    i2 = i1\<lparr>timeIconWasLoaded := now\<rparr>
                in Inr (s2\<lparr>infos := (infos s2)(info \<mapsto> i2\<lparr>iconTextureData := []\<rparr>)\<rparr>))
             else
               (let s2 = delete_Texture (iconTexture i1) s1;
                    i2 = i1\<lparr>iconTexture := None\<rparr>
                in Inr (s2\<lparr>infos := (infos s2)(info \<mapsto> i2\<lparr>iconTextureData := []\<rparr>)\<rparr>)))
       else Inr s)"

definition decode_pic0 :: "externals \<Rightarrow> nat \<Rightarrow> GameInfoCache \<Rightarrow> fault + GameInfoCache" where
  "decode_pic0 ext info s =
     seq (deref info s) (\<lambda>i.
       if length (pic0TextureData i) \<noteq> 0 then
         (let (t, s1) = new_Texture s;
              i1 = i\<lparr>pic0Texture := Some t\<rparr>
          in if LoadPNG ext (pic0TextureData i1) then
               (let (now, s2) = read_clock ext s1;
                    i2 = i1\<lparr>timePic0WasLoaded := now\<rparr>
                in Inr (s2\<lparr>infos := (infos s2)(info \<mapsto> i2\<lparr>pic0TextureData := []\<rparr>)\<rparr>))
             else
               (let s2 = delete_Texture (iconTexture i1) s1;
                    i2 = i1\<lparr>iconTexture := None\<rparr>
                in Inr (s2\<lparr>infos := (infos s2)(info \<mapsto> i2\<lparr>pic0TextureData := []\<rparr>)\<rparr>)))
       else Inr s)"

definition decode_pic1 :: "externals \<Rightarrow> nat \<Rightarrow> GameInfoCache \<Rightarrow> fault + GameInfoCache" where
  "decode_pic1 ext info s =
     seq (deref info s) (\<lambda>i.
       if length (pic1TextureData i) \<noteq> 0 then
         (let (t, s1) = new_Texture s;
              i1 = i\<lparr>pic1Texture := Some t\<rparr>
          in if LoadPNG ext (pic1TextureData i1) then
               (let (now, s2) = read_clock ext s1;
                    i2 = i1\<lparr>timePic1WasLoaded := now\<rparr>
                in Inr (s2\<lparr>infos := (infos s2)(info \<mapsto> i2\<lparr>pic1TextureData := []\<rparr>)\<rparr>))
             else
               (let s2 = delete_Texture (iconTexture i1) s1;
                    i2 = i1\<lparr>iconTexture := None\<rparr>
                in Inr (s2\<lparr>infos := (infos s2)(info \<mapsto> i2\<lparr>pic1TextureData := []\<rparr>)\<rparr>)))
       else Inr s)"

text \<open>Lines 274 and 275: the time stamp of the access, written outside the lock scopes.\<close>

definition touch :: "externals \<Rightarrow> nat \<Rightarrow> GameInfoCache \<Rightarrow> fault + GameInfoCache" where
  "touch ext info s =
     (let (now, s1) = read_clock ext s
      in modify info (\<lambda>i. i\<lparr>lastAccessedTime := now\<rparr>) s1)"

text \<open>
  The address \<^verbatim>\<open>new GameInfo()\<close> hands out on line 280. \<open>freed\<close> is the address that
  \<^verbatim>\<open>delete info\<close> on line 230 released just before, if the call came from there: the allocator
  may hand that block out again, and then the pointers of the work items of the deleted
  record point to the new one. Otherwise the address is one never used before. A block
  that is not handed out again at once stays unused.
\<close>

definition new_GameInfo :: "externals \<Rightarrow> nat option \<Rightarrow> GameInfoCache \<Rightarrow> nat" where
  "new_GameInfo ext freed s =
     (case freed of
        None \<Rightarrow> info_next s
      | Some p \<Rightarrow> if new_reuses_deleted ext p then p else info_next s)"

text \<open>
  Lines 278 to 287, from the label \<^verbatim>\<open>again\<close>: a new record, a work item for it at the end
  of the queue, the map entry. The result is the new pointer.
\<close>

definition create ::
  "externals \<Rightarrow> nat option \<Rightarrow> string \<Rightarrow> bool \<Rightarrow> GameInfoCache \<Rightarrow> nat \<times> GameInfoCache" where
  "create ext freed gamePath wantBG' s =
     (let info = new_GameInfo ext freed s;
          s1 = s\<lparr>infos := (infos s)(info \<mapsto> GameInfo_new\<lparr>wantBG := wantBG'\<rparr>),
                 info_next := max (info_next s) (Suc info)\<rparr>;
          s2 = s1\<lparr>gameInfoWQ := gameInfoWQ s1 @ [\<lparr>item_gamePath = gamePath, item_info = info\<rparr>]\<rparr>;
          s3 = s2\<lparr>info_map := map_assign gamePath info (info_map s2)\<rparr>
      in (info, s3))"

text \<open>
  \<^verbatim>\<open>delete info\<close> on line 230. The destructor of \<^verbatim>\<open>GameInfo\<close> is declared outside this
  file; the model releases the record's own storage and leaves the textures as they are.
\<close>

definition delete_GameInfo :: "nat \<Rightarrow> GameInfoCache \<Rightarrow> GameInfoCache" where
  "delete_GameInfo info s = s\<lparr>infos := (infos s)(info := None)\<rparr>"

text \<open>\<^verbatim>\<open>GameInfoCache::GetInfo\<close>: the returned pointer and the state after the call.\<close>

definition GetInfo ::
  "externals \<Rightarrow> string \<Rightarrow> bool \<Rightarrow> GameInfoCache \<Rightarrow> fault + (nat \<times> GameInfoCache)" where
  "GetInfo ext gamePath wantBG' s =
     (case map_of (info_map s) gamePath of
        Some info \<Rightarrow>
          seq (deref info s) (\<lambda>i.
            if \<not> wantBG i \<and> wantBG' then
              Inr (create ext (Some info) gamePath wantBG' (delete_GameInfo info s))
            else
              seq (decode_icon ext info s) (\<lambda>s1.
              seq (decode_pic0 ext info s1) (\<lambda>s2.
              seq (decode_pic1 ext info s2) (\<lambda>s3.
              seq (touch ext info s3) (\<lambda>s4. Inr (info, s4))))))
      | None \<Rightarrow> Inr (create ext None gamePath wantBG' s))"

text \<open>
  The body of the loops of \<^verbatim>\<open>Clear\<close> and \<^verbatim>\<open>FlushBGs\<close> (lines 178 to 192 and 199 to 213, the
  same text), one lock scope, and the loop over the entries of the map.
\<close>

definition release_BGs :: "nat \<Rightarrow> GameInfoCache \<Rightarrow> fault + GameInfoCache" where
  "release_BGs info s =
     seq (deref info s) (\<lambda>i.
       let i1 = (if pic0TextureData i \<noteq> [] then i\<lparr>pic0TextureData := []\<rparr> else i);
           s2 = (if pic0Texture i1 \<noteq> None then delete_Texture (pic0Texture i1) s else s);
           i2 = (if pic0Texture i1 \<noteq> None then i1\<lparr>pic0Texture := None\<rparr> else i1);
           i3 = (if pic1TextureData i2 \<noteq> [] then i2\<lparr>pic1TextureData := []\<rparr> else i2);
           s4 = (if pic1Texture i3 \<noteq> None then delete_Texture (pic1Texture i3) s2 else s2);
           i4 = (if pic1Texture i3 \<noteq> None then i3\<lparr>pic1Texture := None\<rparr> else i3)
       in Inr (s4\<lparr>infos := (infos s4)(info \<mapsto> i4)\<rparr>))"

fun for_each_info ::
  "(nat \<Rightarrow> GameInfoCache \<Rightarrow> fault + GameInfoCache) \<Rightarrow> (string \<times> nat) list \<Rightarrow>
   GameInfoCache \<Rightarrow> fault + GameInfoCache" where
  "for_each_info body [] s = Inr s"
| "for_each_info body (entry # m) s = seq (body (snd entry) s) (for_each_info body m)"

text \<open>\<^verbatim>\<open>GameInfoCache::FlushBGs\<close>.\<close>

definition FlushBGs :: "GameInfoCache \<Rightarrow> fault + GameInfoCache" where
  "FlushBGs s = for_each_info release_BGs (info_map s) s"

text \<open>
  Modelled from the spec: \<^verbatim>\<open>PrioritizedWorkQueue::Flush\<close> and the thread that runs the queue
  (thread/prioritizedworkqueue.h is not among the sources). A queued work item runs once,
  when the scheduler selects it, and leaves the queue (\<open>run_queued\<close>, for the item at
  position \<open>n\<close>); \<^verbatim>\<open>Flush\<close> returns when every queued item has run (it drains the queue, here
  from the front).
\<close>

definition run_queued :: "externals \<Rightarrow> nat \<Rightarrow> GameInfoCache \<Rightarrow> fault + GameInfoCache" where
  "run_queued ext n s =
     (if n < length (gameInfoWQ s)
      then run ext (gameInfoWQ s ! n)
             (s\<lparr>gameInfoWQ := take n (gameInfoWQ s) @ drop (Suc n) (gameInfoWQ s)\<rparr>)
      else Inr s)"

fun drain :: "externals \<Rightarrow> nat \<Rightarrow> GameInfoCache \<Rightarrow> fault + GameInfoCache" where
  "drain ext 0 s = Inr s"
| "drain ext (Suc n) s = seq (run_queued ext 0 s) (drain ext n)"

definition Flush :: "externals \<Rightarrow> GameInfoCache \<Rightarrow> fault + GameInfoCache" where
  "Flush ext s = drain ext (length (gameInfoWQ s)) s"

text \<open>\<^verbatim>\<open>GameInfoCache::Clear\<close>.\<close>

definition Clear :: "externals \<Rightarrow> GameInfoCache \<Rightarrow> fault + GameInfoCache" where
  "Clear ext s =
     seq (Flush ext s) (\<lambda>s1.
     seq (for_each_info release_BGs (info_map s1) s1) (\<lambda>s2.
     Inr (s2\<lparr>info_map := []\<rparr>)))"

subsection \<open>Notions used in the statements\<close>

text \<open>Every pointer stored in the map points to a live record.\<close>

definition map_live :: "GameInfoCache \<Rightarrow> bool" where
  "map_live s = list_all (\<lambda>entry. infos s (snd entry) \<noteq> None) (info_map s)"

text \<open>The background textures held by the live records at the addresses \<open>P\<close>.\<close>

definition bg_textures :: "GameInfoCache \<Rightarrow> nat set \<Rightarrow> nat set" where
  "bg_textures s P =
     {t. \<exists>p i. p \<in> P \<and> infos s p = Some i \<and> (pic0Texture i = Some t \<or> pic1Texture i = Some t)}"

text \<open>The raw buffer and the decoded texture of an artifact slot.\<close>

fun slot_data :: "slot \<Rightarrow> GameInfo \<Rightarrow> string" where
  "slot_data Icon i = iconTextureData i"
| "slot_data Pic0 i = pic0TextureData i"
| "slot_data Pic1 i = pic1TextureData i"

fun slot_texture :: "slot \<Rightarrow> GameInfo \<Rightarrow> nat option" where
  "slot_texture Icon i = iconTexture i"
| "slot_texture Pic0 i = pic0Texture i"
| "slot_texture Pic1 i = pic1Texture i"

text \<open>No artifact slot of a record holds raw bytes and a decoded texture at once.\<close>

definition slots_exclusive :: "GameInfo \<Rightarrow> bool" where
  "slots_exclusive i =
     ((iconTextureData i = [] \<or> iconTexture i = None) \<and>
      (pic0TextureData i = [] \<or> pic0Texture i = None) \<and>
      (pic1TextureData i = [] \<or> pic1Texture i = None))"

text \<open>An artifact slot of a record is \<open>Empty\<close>.\<close>

definition slot_empty :: "slot \<Rightarrow> GameInfo \<Rightarrow> bool" where
  "slot_empty X i = (slot_data X i = [] \<and> slot_texture X i = None)"

text \<open>
  The states of the cache that its threads can see, with the work items that are running
  (for each the record it points to and the rest of its program). A step is one lock
  scope of \<^verbatim>\<open>GetInfo\<close>, \<^verbatim>\<open>FlushBGs\<close> or \<^verbatim>\<open>Clear\<close> on a record of the map, in any order; the
  unlocked part of \<^verbatim>\<open>GetInfo\<close> that creates a record, with or without the \<^verbatim>\<open>delete\<close> before
  it; the end of \<^verbatim>\<open>Clear\<close>; the start of a queued work item; or one access of a running
  work item. Steps of different threads interleave freely. A work item of a deleted record
  takes its steps on the record that was given the address, if one was; an access through
  a pointer to freed storage has no defined result and so no next state.
\<close>

inductive reachable :: "externals \<Rightarrow> GameInfoCache \<Rightarrow> (nat \<times> prog) list \<Rightarrow> bool"
  for ext :: externals where
  init: "reachable ext GameInfoCache_new []"
| created: "reachable ext s rs \<Longrightarrow> map_of (info_map s) k = None \<Longrightarrow>
    reachable ext (snd (create ext None k bg s)) rs"
| started_over: "reachable ext s rs \<Longrightarrow> map_of (info_map s) k = Some p \<Longrightarrow>
    infos s p = Some i \<Longrightarrow> \<not> wantBG i \<Longrightarrow>
    reachable ext (snd (create ext (Some p) k True (delete_GameInfo p s))) rs"
| icon_decoded: "reachable ext s rs \<Longrightarrow> map_of (info_map s) k = Some p \<Longrightarrow>
    decode_icon ext p s = Inr s' \<Longrightarrow> reachable ext s' rs"
| pic0_decoded: "reachable ext s rs \<Longrightarrow> map_of (info_map s) k = Some p \<Longrightarrow>
    decode_pic0 ext p s = Inr s' \<Longrightarrow> reachable ext s' rs"
| pic1_decoded: "reachable ext s rs \<Longrightarrow> map_of (info_map s) k = Some p \<Longrightarrow>
    decode_pic1 ext p s = Inr s' \<Longrightarrow> reachable ext s' rs"
| touched: "reachable ext s rs \<Longrightarrow> map_of (info_map s) k = Some p \<Longrightarrow>
    touch ext p s = Inr s' \<Longrightarrow> reachable ext s' rs"
| released: "reachable ext s rs \<Longrightarrow> (k, p) \<in> set (info_map s) \<Longrightarrow>
    release_BGs p s = Inr s' \<Longrightarrow> reachable ext s' rs"
| map_cleared: "reachable ext s rs \<Longrightarrow> reachable ext (s\<lparr>info_map := []\<rparr>) rs"
| item_started: "reachable ext s rs \<Longrightarrow> n < length (gameInfoWQ s) \<Longrightarrow>
    reachable ext
      (s\<lparr>gameInfoWQ := take n (gameInfoWQ s) @ drop (Suc n) (gameInfoWQ s)\<rparr>)
      (rs @ [(item_info (gameInfoWQ s ! n), run_prog ext (gameInfoWQ s ! n))])"
| item_stepped: "reachable ext s rs \<Longrightarrow> m < length rs \<Longrightarrow>
    prog_step (fst (rs ! m)) (snd (rs ! m)) s = Inr (s', k') \<Longrightarrow>
    reachable ext s' (rs[m := (fst (rs ! m), k')])"

text \<open>
  The states the cache reaches from the state \<open>s0\<close> (with the running work items \<open>rs0\<close>)
  while the record of the key \<open>k0\<close> is not discarded: by the same steps, without the end of
  \<^verbatim>\<open>Clear\<close> and without the \<^verbatim>\<open>delete\<close> of \<^verbatim>\<open>GetInfo\<close> on the key \<open>k0\<close>.
\<close>

inductive later ::
  "externals \<Rightarrow> string \<Rightarrow> GameInfoCache \<Rightarrow> (nat \<times> prog) list \<Rightarrow>
   GameInfoCache \<Rightarrow> (nat \<times> prog) list \<Rightarrow> bool"
  for ext :: externals and k0 :: string and s0 :: GameInfoCache and rs0 :: "(nat \<times> prog) list" where
  same: "later ext k0 s0 rs0 s0 rs0"
| created: "later ext k0 s0 rs0 s rs \<Longrightarrow> map_of (info_map s) k = None \<Longrightarrow>
    later ext k0 s0 rs0 (snd (create ext None k bg s)) rs"
| started_over: "later ext k0 s0 rs0 s rs \<Longrightarrow> k \<noteq> k0 \<Longrightarrow> map_of (info_map s) k = Some p \<Longrightarrow>
    infos s p = Some i \<Longrightarrow> \<not> wantBG i \<Longrightarrow>
    later ext k0 s0 rs0 (snd (create ext (Some p) k True (delete_GameInfo p s))) rs"
| icon_decoded: "later ext k0 s0 rs0 s rs \<Longrightarrow> map_of (info_map s) k = Some p \<Longrightarrow>
    decode_icon ext p s = Inr s' \<Longrightarrow> later ext k0 s0 rs0 s' rs"
| pic0_decoded: "later ext k0 s0 rs0 s rs \<Longrightarrow> map_of (info_map s) k = Some p \<Longrightarrow>
    decode_pic0 ext p s = Inr s' \<Longrightarrow> later ext k0 s0 rs0 s' rs"
| pic1_decoded: "later ext k0 s0 rs0 s rs \<Longrightarrow> map_of (info_map s) k = Some p \<Longrightarrow>
    decode_pic1 ext p s = Inr s' \<Longrightarrow> later ext k0 s0 rs0 s' rs"
| touched: "later ext k0 s0 rs0 s rs \<Longrightarrow> map_of (info_map s) k = Some p \<Longrightarrow>
    touch ext p s = Inr s' \<Longrightarrow> later ext k0 s0 rs0 s' rs"
| released: "later ext k0 s0 rs0 s rs \<Longrightarrow> (k, p) \<in> set (info_map s) \<Longrightarrow>
    release_BGs p s = Inr s' \<Longrightarrow> later ext k0 s0 rs0 s' rs"
| item_started: "later ext k0 s0 rs0 s rs \<Longrightarrow> n < length (gameInfoWQ s) \<Longrightarrow>
    later ext k0 s0 rs0
      (s\<lparr>gameInfoWQ := take n (gameInfoWQ s) @ drop (Suc n) (gameInfoWQ s)\<rparr>)
      (rs @ [(item_info (gameInfoWQ s ! n), run_prog ext (gameInfoWQ s ! n))])"
| item_stepped: "later ext k0 s0 rs0 s rs \<Longrightarrow> m < length rs \<Longrightarrow>
    prog_step (fst (rs ! m)) (snd (rs ! m)) s = Inr (s', k') \<Longrightarrow>
    later ext k0 s0 rs0 s' (rs[m := (fst (rs ! m), k')])"

text \<open>
  What the proof of the exclusion of raw bytes and texture carries along, for an allocator
  that hands out no freed block again. A write of a work item leaves the
  texture pointers alone and changes no buffer but that of its slot; a program fills each
  slot at most once; the slots a running work item has yet to fill are \<open>Empty\<close>, as are all
  slots of a record whose work item is still queued; and no two work items, queued or
  running, point to the same record.
\<close>

definition writes_only :: "slot option \<Rightarrow> (GameInfo \<Rightarrow> GameInfo) \<Rightarrow> bool" where
  "writes_only X f =
     (\<forall>i Y. slot_texture Y (f i) = slot_texture Y i \<and>
            (X \<noteq> Some Y \<longrightarrow> slot_data Y (f i) = slot_data Y i))"

fun targets :: "prog \<Rightarrow> slot set" where
  "targets Done = {}"
| "targets (Write X f k) = set_option X \<union> targets k"
| "targets (IfWantBG k1 k2) = targets k1 \<union> targets k2"

fun prog_ok :: "prog \<Rightarrow> bool" where
  "prog_ok Done = True"
| "prog_ok (Write X f k) = (writes_only X f \<and> set_option X \<inter> targets k = {} \<and> prog_ok k)"
| "prog_ok (IfWantBG k1 k2) = (prog_ok k1 \<and> prog_ok k2)"

definition cache_inv :: "GameInfoCache \<Rightarrow> (nat \<times> prog) list \<Rightarrow> bool" where
  "cache_inv s rs =
     ((\<forall>p i. infos s p = Some i \<longrightarrow> slots_exclusive i) \<and>
      (\<forall>item \<in> set (gameInfoWQ s). item_info item < info_next s \<and>
         (\<forall>i X. infos s (item_info item) = Some i \<longrightarrow> slot_empty X i)) \<and>
      (\<forall>r \<in> set rs. fst r < info_next s \<and> prog_ok (snd r) \<and>
         (\<forall>i. infos s (fst r) = Some i \<longrightarrow> (\<forall>X \<in> targets (snd r). slot_empty X i))) \<and>
      distinct (map item_info (gameInfoWQ s) @ map fst rs))"




text \<open>The map as \<^verbatim>\<open>std::map\<close> keeps it and as \<^verbatim>\<open>GetInfo\<close> fills it: the keys in strictly
  ascending order, every entry a live record, no record under two keys; and the pointers of
  the map and of the work items, queued or running, below the allocation counter.\<close>

definition map_inv :: "GameInfoCache \<Rightarrow> (nat \<times> prog) list \<Rightarrow> bool" where
  "map_inv s rs =
     (sorted_wrt (<) (map fst (info_map s)) \<and>
      (\<forall>k p. map_of (info_map s) k = Some p \<longrightarrow> p < info_next s \<and> infos s p \<noteq> None) \<and>
      (\<forall>k1 k2 p. map_of (info_map s) k1 = Some p \<and> map_of (info_map s) k2 = Some p \<longrightarrow> k1 = k2) \<and>
      (\<forall>w \<in> set (gameInfoWQ s). item_info w < info_next s) \<and>
      (\<forall>r \<in> set rs. fst r < info_next s))"

subsection \<open>A sample environment\<close>

text \<open>
  Concrete collaborators for the closed instances below: every PBP is valid and holds a
  metadata entry, the icon \<open>''png''\<close> and a background, which is \<open>''png''\<close> too except in
  \<open>''bad.PBP''\<close>, where it is \<open>''bad''\<close>; no block device can be constructed; the decoder
  accepts exactly the bytes \<open>''png''\<close>; the n-th reading of the clock is \<open>5 + n\<close>; the allocator
  hands out no freed block again.
\<close>

definition sample_ext :: externals where
  "sample_ext =
     \<lparr> time_now_d = (\<lambda>n. 5 + real n),
       PBP_IsValid = (\<lambda>path. True),
       PBP_GetSubFile = (\<lambda>path sub. ''sfo''),
       PBP_GetSubFileSize = (\<lambda>path sub. 3),
       PBP_GetSubFileAsString =
         (\<lambda>path sub. case sub of
            PBP_PARAM_SFO \<Rightarrow> ''sfo''
          | PBP_ICON0_PNG \<Rightarrow> ''png''
          | PBP_PIC1_PNG \<Rightarrow> (if path = ''bad.PBP'' then ''bad'' else ''png'')),
       constructBlockDevice = (\<lambda>path. False),
       ISO_GetFileInfo = (\<lambda>img filename. (False, 0)),
       ISO_OpenFile = (\<lambda>img filename. 0),
       ISO_ReadFile = (\<lambda>img filename sz. []),
       ReadSFO = (\<lambda>bytes sfo. (''TITLE'', ''Game'') # sfo),
       GetValueString = (\<lambda>sfo k. case map_of sfo k of None \<Rightarrow> [] | Some v \<Rightarrow> v),
       LoadPNG = (\<lambda>bytes. bytes = ''png''),
       new_reuses_deleted = (\<lambda>p. False) \<rparr>"

text \<open>The same collaborators with an allocator that hands out the block freed last.\<close>

definition reusing_ext :: externals where
  "reusing_ext = sample_ext\<lparr>new_reuses_deleted := (\<lambda>p. True)\<rparr>"

text \<open>The cache after the first \<^verbatim>\<open>GetInfo\<close> of a path: one record, at address 0, and its work item.\<close>

definition cache_with :: "string \<Rightarrow> bool \<Rightarrow> GameInfoCache" where
  "cache_with path bg = snd (create sample_ext None path bg GameInfoCache_new)"

text \<open>
  The cache after \<^verbatim>\<open>GetInfo("a.PBP", true)\<close>, the run of the work item and a second
  \<^verbatim>\<open>GetInfo("a.PBP", true)\<close> in the sample environment: icon and background are decoded, the
  textures 0 and 1.
\<close>

definition cache_decoded :: GameInfoCache where
  "cache_decoded =
     \<lparr> info_map = [(''a.PBP'', 0)], gameInfoWQ = [],
       infos = [0 \<mapsto>
         \<lparr> fileType = FILETYPE_PSP_PBP, paramSFO = [(''TITLE'', ''Game'')], title = ''Game'',
           iconTextureData = [], iconTexture = Some 0,
           pic0TextureData = [], pic0Texture = None,
           pic1TextureData = [], pic1Texture = Some 1,
           wantBG = True, lastAccessedTime = 7,
           timeIconWasLoaded = 5, timePic0WasLoaded = 0, timePic1WasLoaded = 6 \<rparr>],
       info_next = 1, textures = {0, 1}, texture_next = 2, clock_reads = 3 \<rparr>"

subsection \<open>Basic facts\<close>

lemma seq_Inl: "seq (Inl e) f = Inl e"
  by (simp add: seq_def)

lemma seq_Inr: "seq (Inr x) f = f x"
  by (simp add: seq_def)

lemma seq_eq_Inr: "seq m f = Inr y \<longleftrightarrow> (\<exists>x. m = Inr x \<and> f x = Inr y)"
  by (cases m) (simp_all add: seq_def)

lemma modify_live: "infos s p = Some i \<Longrightarrow> modify p f s = Inr (s\<lparr>infos := (infos s)(p \<mapsto> f i)\<rparr>)"
  by (simp add: modify_def)

lemma modify_dead: "infos s p = None \<Longrightarrow> modify p f s = Inl (UseAfterFree p)"
  by (simp add: modify_def)

lemma deref_live: "infos s p = Some i \<Longrightarrow> deref p s = Inr i"
  by (simp add: deref_def)

lemma deref_dead: "infos s p = None \<Longrightarrow> deref p s = Inl (UseAfterFree p)"
  by (simp add: deref_def)

lemma cache_with_eq:
  "cache_with path bg =
     \<lparr> info_map = [(path, 0)], gameInfoWQ = [\<lparr>item_gamePath = path, item_info = 0\<rparr>],
       infos = [0 \<mapsto> GameInfo_new\<lparr>wantBG := bg\<rparr>], info_next = Suc 0,
       textures = {}, texture_next = 0, clock_reads = 0 \<rparr>"
  by (simp add: cache_with_def create_def new_GameInfo_def GameInfoCache_new_def Let_def)

text \<open>The three ways of \<open>create\<close>: a new address, the freed address, the freed address refused.\<close>

lemma create_None:
  "create ext None k bg s =
     (info_next s,
      s\<lparr>infos := (infos s)(info_next s \<mapsto> GameInfo_new\<lparr>wantBG := bg\<rparr>),
        info_next := Suc (info_next s),
        gameInfoWQ := gameInfoWQ s @ [\<lparr>item_gamePath = k, item_info = info_next s\<rparr>],
        info_map := map_assign k (info_next s) (info_map s)\<rparr>)"
  by (simp add: create_def new_GameInfo_def Let_def)

lemma create_not_reused:
  "\<not> new_reuses_deleted ext p \<Longrightarrow> create ext (Some p) k bg s = create ext None k bg s"
  by (simp add: create_def new_GameInfo_def)

lemma create_reused:
  assumes "new_reuses_deleted ext p" and "p < info_next s"
  shows "create ext (Some p) k bg s =
     (p,
      s\<lparr>infos := (infos s)(p \<mapsto> GameInfo_new\<lparr>wantBG := bg\<rparr>),
        gameInfoWQ := gameInfoWQ s @ [\<lparr>item_gamePath = k, item_info = p\<rparr>],
        info_map := map_assign k p (info_map s)\<rparr>)"
proof -
  have "max (info_next s) (Suc p) = info_next s"
    using assms(2) by simp
  then show ?thesis
    using assms(1) by (simp add: create_def new_GameInfo_def Let_def)
qed



subsection \<open>The conversion to float\<close>

text \<open>\<open>binary_exponent\<close> is the exponent it is meant to be.\<close>

lemma binary_exponent_bounds:
  assumes "x \<noteq> 0"
  shows "pow2 (binary_exponent x) \<le> \<bar>x\<bar> \<and> \<bar>x\<bar> < pow2 (binary_exponent x + 1)"
proof (cases "1 \<le> \<bar>x\<bar>")
  case True
  define n where "n = nat \<lfloor>\<bar>x\<bar>\<rfloor>"
  define f where "f = floorlog 2 n"
  have n: "0 < n" "real n \<le> \<bar>x\<bar>" "\<bar>x\<bar> < real n + 1"
    using True unfolding n_def by (simp_all add: le_floor_iff)
  have b: "2 ^ (f - 1) \<le> n" "n < 2 ^ f"
    using floorlog_bounds [of n 2] n(1) unfolding f_def by simp_all
  have f: "0 < f"
    using n(1) unfolding f_def by (simp add: floorlog_def)
  have e: "binary_exponent x = int f - 1"
    using True by (simp add: binary_exponent_def n_def f_def)
  have "real (2 ^ (f - 1)) \<le> real n"
    using b(1) by (rule of_nat_mono)
  then have "(2::real) ^ (f - 1) \<le> real n"
    by simp
  moreover have "real (Suc n) \<le> real (2 ^ f)"
    using b(2) by (intro of_nat_mono) simp
  then have "real n + 1 \<le> 2 ^ f"
    by simp
  moreover have "pow2 (int f - 1) = 2 ^ (f - 1)" "pow2 (int f - 1 + 1) = 2 ^ f"
    using f by (simp_all add: pow2_def nat_diff_distrib')
  ultimately show ?thesis
    unfolding e using n by linarith
next
  case False
  define y where "y = 1 / \<bar>x\<bar>"
  define n where "n = nat (\<lceil>y\<rceil> - 1)"
  define f where "f = floorlog 2 n"
  have x: "0 < \<bar>x\<bar>" "\<bar>x\<bar> < 1"
    using assms False by simp_all
  have y: "1 < y"
    using x unfolding y_def by simp
  then have c: "2 \<le> \<lceil>y\<rceil>"
    by linarith
  have rn: "real n = of_int \<lceil>y\<rceil> - 1"
    using c unfolding n_def by simp
  have n: "0 < n" "real n < y" "y \<le> real n + 1"
  proof -
    show "0 < n" using c unfolding n_def by simp
    show "real n < y" unfolding rn by linarith
    show "y \<le> real n + 1" unfolding rn by linarith
  qed
  have b: "2 ^ (f - 1) \<le> n" "n < 2 ^ f"
    using floorlog_bounds [of n 2] n(1) unfolding f_def by simp_all
  have f: "0 < f"
    using n(1) unfolding f_def by (simp add: floorlog_def)
  have e: "binary_exponent x = - int f"
    using False by (simp add: binary_exponent_def n_def f_def y_def)
  have "real (2 ^ (f - 1)) \<le> real n"
    using b(1) by (rule of_nat_mono)
  then have "(2::real) ^ (f - 1) \<le> real n"
    by simp
  then have l: "(2::real) ^ (f - 1) < y"
    using n(2) by linarith
  have "real (Suc n) \<le> real (2 ^ f)"
    using b(2) by (intro of_nat_mono) simp
  then have "real n + 1 \<le> 2 ^ f"
    by simp
  then have u: "y \<le> 2 ^ f"
    using n(3) by linarith
  have p: "pow2 (- int f) = 1 / 2 ^ f" "pow2 (- int f + 1) = 1 / 2 ^ (f - 1)"
    using f by (simp_all add: pow2_def nat_diff_distrib')
  have "1 / 2 ^ f \<le> \<bar>x\<bar>"
    using u x(1) unfolding y_def by (simp add: field_simps)
  moreover have "\<bar>x\<bar> < 1 / 2 ^ (f - 1)"
    using l x(1) unfolding y_def by (simp add: field_simps)
  ultimately show ?thesis
    unfolding e p by simp
qed

text \<open>
  Some values: a small integer is kept; \<open>2 ^ 24 + 1\<close> is not a \<^verbatim>\<open>float\<close> and lies half way
  between two, of which the even one is taken; one tenth becomes the \<^verbatim>\<open>float\<close> nearest to it.
\<close>

lemmas to_float_defs =
  to_float_def binary_exponent_def pow2_def round_to_even_def compute_floorlog Let_def

lemma to_float_small: "to_float 7 = Finite 7"
  by (simp add: to_float_defs)

lemma to_float_narrows: "to_float 16777217 = Finite 16777216"
  by (simp add: to_float_defs)

lemma to_float_tie_up: "to_float 16777219 = Finite 16777220"
  by (simp add: to_float_defs)

lemma to_float_tenth: "to_float (1 / 10) = Finite (13421773 / 134217728)"
  by (simp add: to_float_defs)

section \<open>The lock scopes of the cache, on a live record\<close>

lemma delete_Texture_eq: "delete_Texture t s = s\<lparr>textures := textures s - set_option t\<rparr>"
  by (cases t) (simp_all add: delete_Texture_def)

lemma decode_icon_live:
  assumes "infos s p = Some i"
  shows "decode_icon ext p s =
         Inr (if iconTextureData i = [] then s
              else if LoadPNG ext (iconTextureData i) then
                s\<lparr>textures := insert (texture_next s) (textures s),
                  texture_next := Suc (texture_next s),
                  clock_reads := Suc (clock_reads s),
                  infos := (infos s)(p \<mapsto> i\<lparr>iconTexture := Some (texture_next s),
                                  timeIconWasLoaded := time_now_d ext (clock_reads s),
                                  iconTextureData := []\<rparr>)\<rparr>
              else
                s\<lparr>textures := insert (texture_next s) (textures s) - {texture_next s},
                  texture_next := Suc (texture_next s),
                  infos := (infos s)(p \<mapsto> i\<lparr>iconTexture := None, iconTextureData := []\<rparr>)\<rparr>)"
  using assms
  by (simp add: decode_icon_def deref_live seq_Inr new_Texture_def read_clock_def delete_Texture_eq
      Let_def)

lemma decode_icon_frame:
  assumes "infos s p = Some i"
  shows "\<exists>s' i'. decode_icon ext p s = Inr s' \<and> infos s' = (infos s)(p \<mapsto> i') \<and>
           info_map s' = info_map s \<and> gameInfoWQ s' = gameInfoWQ s \<and>
           info_next s' = info_next s \<and> wantBG i' = wantBG i \<and>
           clock_reads s \<le> clock_reads s'"
proof (cases "iconTextureData i = []")
  case True
  moreover have "infos s = (infos s)(p \<mapsto> i)"
    using assms by (simp add: map_upd_triv)
  ultimately show ?thesis
    by (auto simp: decode_icon_live [OF assms])
next
  case False
  then show ?thesis
    by (auto simp: decode_icon_live [OF assms] intro!: exI)
qed

lemma decode_pic0_live:
  assumes "infos s p = Some i"
  shows "decode_pic0 ext p s =
         Inr (if pic0TextureData i = [] then s
              else if LoadPNG ext (pic0TextureData i) then
                s\<lparr>textures := insert (texture_next s) (textures s),
                  texture_next := Suc (texture_next s),
                  clock_reads := Suc (clock_reads s),
                  infos := (infos s)(p \<mapsto> i\<lparr>pic0Texture := Some (texture_next s),
                                  timePic0WasLoaded := time_now_d ext (clock_reads s),
                                  pic0TextureData := []\<rparr>)\<rparr>
              else
                s\<lparr>textures := insert (texture_next s) (textures s) - set_option (iconTexture i),
                  texture_next := Suc (texture_next s),
                  infos := (infos s)(p \<mapsto> i\<lparr>pic0Texture := Some (texture_next s), iconTexture := None, pic0TextureData := []\<rparr>)\<rparr>)"
  using assms
  by (simp add: decode_pic0_def deref_live seq_Inr new_Texture_def read_clock_def delete_Texture_eq
      Let_def)

lemma decode_pic0_frame:
  assumes "infos s p = Some i"
  shows "\<exists>s' i'. decode_pic0 ext p s = Inr s' \<and> infos s' = (infos s)(p \<mapsto> i') \<and>
           info_map s' = info_map s \<and> gameInfoWQ s' = gameInfoWQ s \<and>
           info_next s' = info_next s \<and> wantBG i' = wantBG i \<and>
           clock_reads s \<le> clock_reads s'"
proof (cases "pic0TextureData i = []")
  case True
  moreover have "infos s = (infos s)(p \<mapsto> i)"
    using assms by (simp add: map_upd_triv)
  ultimately show ?thesis
    by (auto simp: decode_pic0_live [OF assms])
next
  case False
  then show ?thesis
    by (auto simp: decode_pic0_live [OF assms] intro!: exI)
qed

lemma decode_pic1_live:
  assumes "infos s p = Some i"
  shows "decode_pic1 ext p s =
         Inr (if pic1TextureData i = [] then s
              else if LoadPNG ext (pic1TextureData i) then
                s\<lparr>textures := insert (texture_next s) (textures s),
                  texture_next := Suc (texture_next s),
                  clock_reads := Suc (clock_reads s),
                  infos := (infos s)(p \<mapsto> i\<lparr>pic1Texture := Some (texture_next s),
                                  timePic1WasLoaded := time_now_d ext (clock_reads s),
                                  pic1TextureData := []\<rparr>)\<rparr>
              else
                s\<lparr>textures := insert (texture_next s) (textures s) - set_option (iconTexture i),
                  texture_next := Suc (texture_next s),
                  infos := (infos s)(p \<mapsto> i\<lparr>pic1Texture := Some (texture_next s), iconTexture := None, pic1TextureData := []\<rparr>)\<rparr>)"
  using assms
  by (simp add: decode_pic1_def deref_live seq_Inr new_Texture_def read_clock_def delete_Texture_eq
      Let_def)

lemma decode_pic1_frame:
  assumes "infos s p = Some i"
  shows "\<exists>s' i'. decode_pic1 ext p s = Inr s' \<and> infos s' = (infos s)(p \<mapsto> i') \<and>
           info_map s' = info_map s \<and> gameInfoWQ s' = gameInfoWQ s \<and>
           info_next s' = info_next s \<and> wantBG i' = wantBG i \<and>
           clock_reads s \<le> clock_reads s'"
proof (cases "pic1TextureData i = []")
  case True
  moreover have "infos s = (infos s)(p \<mapsto> i)"
    using assms by (simp add: map_upd_triv)
  ultimately show ?thesis
    by (auto simp: decode_pic1_live [OF assms])
next
  case False
  then show ?thesis
    by (auto simp: decode_pic1_live [OF assms] intro!: exI)
qed

lemma touch_live:
  assumes "infos s p = Some i"
  shows "touch ext p s =
         Inr (s\<lparr>clock_reads := Suc (clock_reads s),
                infos := (infos s)(p \<mapsto> i\<lparr>lastAccessedTime := time_now_d ext (clock_reads s)\<rparr>)\<rparr>)"
  using assms by (simp add: touch_def read_clock_def modify_def)

text \<open>A call that finds a record and does not start over returns the pointer of the map.\<close>

lemma GetInfo_hit:
  assumes k: "map_of (info_map s) k = Some p"
    and i: "infos s p = Some i"
    and stay: "\<not> (\<not> wantBG i \<and> bg)"
  shows "\<exists>s' i'. GetInfo ext k bg s = Inr (p, s') \<and> infos s' = (infos s)(p \<mapsto> i') \<and>
           info_map s' = info_map s \<and> gameInfoWQ s' = gameInfoWQ s \<and>
           info_next s' = info_next s \<and> wantBG i' = wantBG i \<and>
           clock_reads s < clock_reads s' \<and>
           lastAccessedTime i' = time_now_d ext (clock_reads s' - 1)"
proof -
  obtain s1 i1 where 1: "decode_icon ext p s = Inr s1" "infos s1 = (infos s)(p \<mapsto> i1)"
      "info_map s1 = info_map s" "gameInfoWQ s1 = gameInfoWQ s" "info_next s1 = info_next s"
      "wantBG i1 = wantBG i" "clock_reads s \<le> clock_reads s1"
    using decode_icon_frame [OF i, of ext] by blast
  have l1: "infos s1 p = Some i1"
    using 1 by simp
  obtain s2 i2 where 2: "decode_pic0 ext p s1 = Inr s2" "infos s2 = (infos s1)(p \<mapsto> i2)"
      "info_map s2 = info_map s1" "gameInfoWQ s2 = gameInfoWQ s1" "info_next s2 = info_next s1"
      "wantBG i2 = wantBG i1" "clock_reads s1 \<le> clock_reads s2"
    using decode_pic0_frame [OF l1, of ext] by blast
  have l2: "infos s2 p = Some i2"
    using 2 by simp
  obtain s3 i3 where 3: "decode_pic1 ext p s2 = Inr s3" "infos s3 = (infos s2)(p \<mapsto> i3)"
      "info_map s3 = info_map s2" "gameInfoWQ s3 = gameInfoWQ s2" "info_next s3 = info_next s2"
      "wantBG i3 = wantBG i2" "clock_reads s2 \<le> clock_reads s3"
    using decode_pic1_frame [OF l2, of ext] by blast
  have l3: "infos s3 p = Some i3"
    using 3 by simp
  let ?i4 = "i3\<lparr>lastAccessedTime := time_now_d ext (clock_reads s3)\<rparr>"
  let ?s4 = "s3\<lparr>clock_reads := Suc (clock_reads s3), infos := (infos s3)(p \<mapsto> ?i4)\<rparr>"
  have "GetInfo ext k bg s = Inr (p, ?s4)"
    using k i stay 1(1) 2(1) 3(1) touch_live [OF l3, of ext]
    by (auto simp: GetInfo_def deref_live seq_Inr)
  moreover have "infos ?s4 = (infos s)(p \<mapsto> ?i4)"
    using 1 2 3 by simp
  ultimately show ?thesis
    using 1 2 3 by (intro exI [of _ ?s4] exI [of _ ?i4]) simp
qed

lemma map_of_map_assign: "map_of (map_assign k v m) = (map_of m)(k \<mapsto> v)"
  by (induction m) (auto simp: fun_eq_iff)

text \<open>Whatever path a call takes, it returns the pointer the map holds afterwards.\<close>

lemma GetInfo_returns_entry:
  assumes "GetInfo ext k bg s = Inr (p, s')"
  shows "map_of (info_map s') k = Some p \<and> infos s' p \<noteq> None"
proof (cases "map_of (info_map s) k")
  case None
  then show ?thesis
    using assms by (auto simp: GetInfo_def create_def new_GameInfo_def Let_def map_of_map_assign)
next
  case entry: (Some q)
  show ?thesis
  proof (cases "infos s q")
    case None
    then show ?thesis
      using assms entry by (simp add: GetInfo_def deref_dead seq_Inl)
  next
    case (Some i)
    show ?thesis
    proof (cases "\<not> wantBG i \<and> bg")
      case False
      from GetInfo_hit [OF entry Some False, of ext] show ?thesis
        using assms entry by auto
    next
      case True
      then show ?thesis
        using assms Some entry
        by (auto simp: GetInfo_def deref_live seq_Inr create_def new_GameInfo_def Let_def
            map_of_map_assign delete_GameInfo_def)
    qed
  qed
qed

lemma map_live_entry:
  assumes "map_live s" and "map_of (info_map s) k = Some p"
  shows "\<exists>i. infos s p = Some i"
proof -
  have "(k, p) \<in> set (info_map s)"
    using assms(2) by (rule map_of_SomeD)
  then show ?thesis
    using assms(1) by (fastforce simp: map_live_def list_all_iff)
qed

section \<open>The time of the last access\<close>

text \<open>The definitions a closed instance unfolds.\<close>

lemmas eval_defs =
  GetInfo_def create_def new_GameInfo_def run_queued_def run_def run_PBP_def decode_icon_def decode_pic0_def
  decode_pic1_def touch_def read_clock_def new_Texture_def delete_Texture_def modify_def
  deref_def seq_def GameInfoCache_new_def GameInfo_new_def sample_ext_def startsWith_def
  endsWith_def Let_def delete_GameInfo_def reusing_ext_def

lemma cache_decoded_reached:
  "seq (GetInfo sample_ext ''a.PBP'' True GameInfoCache_new) (\<lambda>(p, s1).
   seq (run_queued sample_ext 0 s1) (\<lambda>s2.
   seq (GetInfo sample_ext ''a.PBP'' True s2) (\<lambda>(q, s3). Inr s3))) = Inr cache_decoded"
  by (auto simp: eval_defs cache_decoded_def)




section \<open>Releasing artifacts\<close>

lemma release_BGs_live:
  assumes "infos s p = Some i"
  shows "release_BGs p s =
         Inr (s\<lparr>textures := textures s - set_option (pic0Texture i) - set_option (pic1Texture i),
                infos := (infos s)(p \<mapsto> i\<lparr>pic0TextureData := [], pic0Texture := None,
                                            pic1TextureData := [], pic1Texture := None\<rparr>)\<rparr>)"
  using assms
  by (cases i)
    (auto simp: release_BGs_def deref_live seq_Inr delete_Texture_def Let_def split: option.splits)

lemma bg_textures_single:
  "infos s p = Some i \<Longrightarrow>
   bg_textures s {p} = set_option (pic0Texture i) \<union> set_option (pic1Texture i)"
  by (auto simp: bg_textures_def)

lemma bg_textures_insert: "bg_textures s (insert p P) = bg_textures s {p} \<union> bg_textures s P"
  by (auto simp: bg_textures_def)

lemma bg_textures_after:
  "bg_textures (s\<lparr>textures := T,
      infos := (infos s)(p \<mapsto> i\<lparr>pic0TextureData := [], pic0Texture := None,
                                  pic1TextureData := [], pic1Texture := None\<rparr>)\<rparr>) P
   = bg_textures s (P - {p})"
  by (auto simp: bg_textures_def split: if_splits)

lemma bg_textures_minus:
  "bg_textures s {p} \<union> bg_textures s (P - {p}) = bg_textures s {p} \<union> bg_textures s P"
  by (auto simp: bg_textures_def)

text \<open>The loop of \<^verbatim>\<open>Clear\<close> and \<^verbatim>\<open>FlushBGs\<close> over entries that point to live records.\<close>

lemma for_each_release:
  assumes "\<forall>e \<in> set m. infos s (snd e) \<noteq> None"
  shows "for_each_info release_BGs m s =
         Inr (s\<lparr>textures := textures s - bg_textures s (snd ` set m),
                infos := (\<lambda>p. if p \<in> snd ` set m
                              then map_option (\<lambda>i. i\<lparr>pic0TextureData := [], pic0Texture := None,
                                            pic1TextureData := [], pic1Texture := None\<rparr>) (infos s p)
                              else infos s p)\<rparr>)"
  using assms
proof (induction m arbitrary: s)
  case Nil
  then show ?case
    by (simp add: bg_textures_def)
next
  case (Cons e m)
  obtain i where i: "infos s (snd e) = Some i"
    using Cons.prems by auto
  let ?f = "\<lambda>i. i\<lparr>pic0TextureData := [], pic0Texture := None,
                  pic1TextureData := [], pic1Texture := None\<rparr>"
  let ?T = "textures s - set_option (pic0Texture i) - set_option (pic1Texture i)"
  let ?s1 = "s\<lparr>textures := ?T, infos := (infos s)(snd e \<mapsto> ?f i)\<rparr>"
  have live1: "\<forall>e' \<in> set m. infos ?s1 (snd e') \<noteq> None"
    using Cons.prems by auto
  have a: "bg_textures ?s1 (snd ` set m) = bg_textures s (snd ` set m - {snd e})"
    by (rule bg_textures_after)
  have b: "set_option (pic0Texture i) \<union> set_option (pic1Texture i) = bg_textures s {snd e}"
    by (rule bg_textures_single [OF i, symmetric])
  have c: "bg_textures s (snd ` set (e # m))
           = bg_textures s {snd e} \<union> bg_textures s (snd ` set m - {snd e})"
    using bg_textures_insert [of s "snd e" "snd ` set m"]
      bg_textures_minus [of s "snd e" "snd ` set m"]
    by simp
  have "?T = textures s - bg_textures s {snd e}"
    unfolding b [symmetric] by blast
  then have tx: "?T - bg_textures ?s1 (snd ` set m)
                 = textures s - bg_textures s (snd ` set (e # m))"
    unfolding a c by blast
  have inf: "(\<lambda>p. if p \<in> snd ` set m then map_option ?f (infos ?s1 p) else infos ?s1 p)
     = (\<lambda>p. if p \<in> snd ` set (e # m) then map_option ?f (infos s p) else infos s p)"
    using i by (auto simp: fun_eq_iff)
  have "for_each_info release_BGs (e # m) s = for_each_info release_BGs m ?s1"
    by (simp add: release_BGs_live [OF i] seq_Inr)
  also have "\<dots> = Inr (?s1\<lparr>textures := textures ?s1 - bg_textures ?s1 (snd ` set m),
                infos := (\<lambda>p. if p \<in> snd ` set m then map_option ?f (infos ?s1 p)
                              else infos ?s1 p)\<rparr>)"
    by (rule Cons.IH [OF live1])
  also have "\<dots> = Inr (s\<lparr>textures := textures s - bg_textures s (snd ` set (e # m)),
                infos := (\<lambda>p. if p \<in> snd ` set (e # m) then map_option ?f (infos s p)
                              else infos s p)\<rparr>)"
    using tx inf by simp
  finally show ?case .
qed

text \<open>
  Claim C5. \<^verbatim>\<open>FlushBGs\<close> resets the two background slots of every record in the map and
  nothing else. From a cache whose map holds no dangling pointer it returns the state in
  which each record the map points to has its two background buffers empty and its two
  background pointers null, and is otherwise the record it was (icon buffer and texture,
  title, metadata table and all other fields); records not in the map are untouched; the
  released background textures, and only they, leave the set of live textures; the map,
  with its keys and pointers, and the queue are the same.
\<close>

theorem FlushBGs_resets_backgrounds_only:
  assumes "map_live s"
  shows "FlushBGs s =
         Inr (s\<lparr>textures := textures s - bg_textures s (snd ` set (info_map s)),
                infos := (\<lambda>p. if p \<in> snd ` set (info_map s)
                              then map_option (\<lambda>i. i\<lparr>pic0TextureData := [], pic0Texture := None,
                                            pic1TextureData := [], pic1Texture := None\<rparr>) (infos s p)
                              else infos s p)\<rparr>)"
  unfolding FlushBGs_def
  using assms by (intro for_each_release) (simp add: map_live_def list_all_iff)

theorem FlushBGs_resets_backgrounds_only_witness:
  "map_live cache_decoded \<and>
   FlushBGs cache_decoded =
     Inr (cache_decoded\<lparr>textures := {0},
            infos := [0 \<mapsto>
              \<lparr> fileType = FILETYPE_PSP_PBP, paramSFO = [(''TITLE'', ''Game'')], title = ''Game'',
                iconTextureData = [], iconTexture = Some 0,
                pic0TextureData = [], pic0Texture = None,
                pic1TextureData = [], pic1Texture = None,
                wantBG = True, lastAccessedTime = 7,
                timeIconWasLoaded = 5, timePic0WasLoaded = 0, timePic1WasLoaded = 6 \<rparr>]\<rparr>)"
proof -
  have live: "map_live cache_decoded"
    by (simp add: map_live_def cache_decoded_def)
  have "bg_textures cache_decoded (snd ` set (info_map cache_decoded)) = {1}"
    by (auto simp: bg_textures_def cache_decoded_def)
  then have "textures cache_decoded - bg_textures cache_decoded (snd ` set (info_map cache_decoded))
             = {0}"
    by (auto simp: cache_decoded_def)
  with FlushBGs_resets_backgrounds_only [OF live] live show ?thesis
    by (auto simp: cache_decoded_def fun_eq_iff)
qed

text \<open>
  Claim C3 says that after \<^verbatim>\<open>Clear\<close> the map is empty and every decoded artifact, the icon
  texture included, has been released. The loop of \<^verbatim>\<open>Clear\<close> releases the two background
  textures only: on the cache with a decoded icon (texture 0) and a decoded background
  (texture 1) the map is empty afterwards, and texture 0 is still allocated.
\<close>

theorem Clear_keeps_icon_texture:
  "map_sum id (\<lambda>s. (info_map s, textures s)) (Clear sample_ext cache_decoded) = Inr ([], {0})"
  by (auto simp: Clear_def Flush_def release_BGs_def eval_defs cache_decoded_def)

section \<open>Decoding\<close>

text \<open>
  Claim C2 says that a failed decode leaves the slot \<open>Empty\<close>, its own pointer null, and
  touches no other slot. The second and third lock scope delete and null \<^verbatim>\<open>iconTexture\<close>
  where the first one deletes and nulls its own pointer. With the icon \<open>''png''\<close> and the
  background \<open>''bad''\<close> of \<open>''bad.PBP''\<close> loaded, the next \<^verbatim>\<open>GetInfo\<close> decodes the icon into
  texture 0, fails to decode the background into texture 1, and returns with the icon
  pointer null, texture 0 deleted, and the background pointer still at texture 1.
\<close>

theorem failed_background_decode_hits_icon:
  "map_sum id
     (\<lambda>(p, s). (map_option iconTexture (infos s p), map_option pic1Texture (infos s p),
                map_option pic1TextureData (infos s p), textures s))
     (seq (GetInfo sample_ext ''bad.PBP'' True GameInfoCache_new) (\<lambda>(p, s1).
      seq (run_queued sample_ext 0 s1) (\<lambda>s2. GetInfo sample_ext ''bad.PBP'' True s2)))
   = Inr (Some None, Some (Some 1), Some [], {1})"
  by (auto simp: eval_defs)

section \<open>Starting over with backgrounds\<close>

text \<open>
  Claim C1 says that after \<^verbatim>\<open>GetInfo(k, false)\<close> and \<^verbatim>\<open>GetInfo(k, true)\<close> the map holds one live
  record for the key, with \<^verbatim>\<open>wantBG\<close> set, and that the work item of the discarded record
  never writes to freed storage. The first half holds: the calls return the addresses 0 and
  1, the map holds the one entry for address 1, and that record wants backgrounds. The
  second does not: the item bound to address 0 is still queued, and when it runs it assigns
  \<^verbatim>\<open>info_->fileType\<close> through the pointer to the deleted record. (The allocator of the sample
  environment hands out no freed block again. With one that does, the item writes into the
  new record instead; see the section on raw bytes and decoded texture.)
\<close>

theorem discarded_record_written_after_delete:
  "seq (GetInfo sample_ext ''game.iso'' False GameInfoCache_new) (\<lambda>(p, s1).
   seq (GetInfo sample_ext ''game.iso'' True s1) (\<lambda>(q, s2).
     Inr (p, q, info_map s2, map_option wantBG (infos s2 q), infos s2 p, gameInfoWQ s2,
          run_queued sample_ext 0 s2)))
   = Inr (0, 1, [(''game.iso'', 1)], Some True, None,
          [\<lparr>item_gamePath = ''game.iso'', item_info = 0\<rparr>,
           \<lparr>item_gamePath = ''game.iso'', item_info = 1\<rparr>],
          Inl (UseAfterFree 0))"
  by (auto simp: eval_defs)

section \<open>The run of a work item is the run of its program\<close>

lemma exec_prog_funs:
  "exec_prog p Done = Inr"
  "exec_prog p (Write X f k) = (\<lambda>s. seq (modify p f s) (exec_prog p k))"
  "exec_prog p (IfWantBG k1 k2) =
     (\<lambda>s. seq (deref p s) (\<lambda>i. if wantBG i then exec_prog p k1 s else exec_prog p k2 s))"
  by (rule ext, simp)+

lemma seq_Inr_right: "seq m Inr = m"
  by (cases m) (simp_all add: seq_def)

lemma exec_read_into_prog:
  "exec_prog p (read_into_prog ext img fn X get put k)
   = (\<lambda>s. seq (read_into ext img fn p get put s) (exec_prog p k))"
  by (rule ext) (simp add: read_into_prog_def read_into_def seq_Inr)

lemma run_PBP_exec: "run_PBP ext path p s = exec_prog p (PBP_prog ext path) s"
  by (simp add: run_PBP_def PBP_prog_def exec_prog_funs seq_Inr_right cong: if_cong)

lemma run_ISO_exec: "run_ISO ext path p s = exec_prog p (ISO_prog ext path) s"
  by (cases "ReadFileToString ext path ''/PSP_GAME/PARAM.SFO'' []")
    (simp_all add: run_ISO_def ISO_prog_def exec_read_into_prog exec_prog_funs seq_Inr
      seq_Inr_right cong: if_cong)

lemma run_exec: "run ext item s = exec_prog (item_info item) (run_prog ext item) s"
  by (simp add: run_def run_prog_def run_PBP_exec run_ISO_exec exec_prog_funs seq_Inr_right cong: if_cong)

section \<open>The operations of the cache stay within the reachable states\<close>

text \<open>A running work item that takes all its accesses in a row.\<close>

lemma exec_prog_reachable:
  assumes "reachable ext s rs" and "m < length rs" and "rs ! m = (p, k)"
    and "exec_prog p k s = Inr s'"
  shows "\<exists>rs'. reachable ext s' rs'"
  using assms
proof (induction k arbitrary: s rs)
  case Done
  then show ?case by auto
next
  case (Write X f k)
  then obtain s1 where 1: "modify p f s = Inr s1" and 2: "exec_prog p k s1 = Inr s'"
    by (auto simp: seq_eq_Inr)
  have "prog_step (fst (rs ! m)) (snd (rs ! m)) s = Inr (s1, k)"
    using 1 Write.prems(3) by (simp add: seq_Inr)
  from reachable.item_stepped [OF Write.prems(1,2) this]
  have "reachable ext s1 (rs[m := (p, k)])"
    using Write.prems(3) by simp
  from Write.IH [OF this _ _ 2] Write.prems(2) show ?case by simp
next
  case (IfWantBG k1 k2)
  then obtain i where 1: "deref p s = Inr i"
    and 2: "(if wantBG i then exec_prog p k1 s else exec_prog p k2 s) = Inr s'"
    by (auto simp: seq_eq_Inr)
  have "prog_step (fst (rs ! m)) (snd (rs ! m)) s = Inr (s, if wantBG i then k1 else k2)"
    using 1 IfWantBG.prems(3) by (simp add: seq_Inr)
  from reachable.item_stepped [OF IfWantBG.prems(1,2) this]
  have r: "reachable ext s (rs[m := (p, if wantBG i then k1 else k2)])"
    using IfWantBG.prems(3) by simp
  show ?case
  proof (cases "wantBG i")
    case True
    with r 2 IfWantBG.IH(1) [of s "rs[m := (p, k1)]"] IfWantBG.prems(2) show ?thesis by simp
  next
    case False
    with r 2 IfWantBG.IH(2) [of s "rs[m := (p, k2)]"] IfWantBG.prems(2) show ?thesis by simp
  qed
qed

lemma run_queued_reachable:
  assumes "reachable ext s rs" and "run_queued ext n s = Inr s'"
  shows "\<exists>rs'. reachable ext s' rs'"
proof (cases "n < length (gameInfoWQ s)")
  case False
  then show ?thesis using assms by (auto simp: run_queued_def)
next
  case True
  let ?item = "gameInfoWQ s ! n"
  let ?s0 = "s\<lparr>gameInfoWQ := take n (gameInfoWQ s) @ drop (Suc n) (gameInfoWQ s)\<rparr>"
  let ?rs = "rs @ [(item_info ?item, run_prog ext ?item)]"
  have r: "reachable ext ?s0 ?rs"
    using assms(1) True by (rule reachable.item_started)
  have "exec_prog (item_info ?item) (run_prog ext ?item) ?s0 = Inr s'"
    using assms(2) True by (simp add: run_queued_def run_exec)
  from exec_prog_reachable [OF r _ _ this, of "length rs"] show ?thesis by simp
qed

lemma GetInfo_reachable:
  assumes r: "reachable ext s rs" and g: "GetInfo ext k bg s = Inr (p, s')"
  shows "reachable ext s' rs"
proof (cases "map_of (info_map s) k")
  case None
  then have "s' = snd (create ext None k bg s)"
    using g by (simp add: GetInfo_def)
  then show ?thesis using r None by (simp add: reachable.created)
next
  case entry: (Some q)
  show ?thesis
  proof (cases "infos s q")
    case None
    then show ?thesis using g entry by (simp add: GetInfo_def deref_dead seq_Inl)
  next
    case (Some i)
    show ?thesis
    proof (cases "\<not> wantBG i \<and> bg")
      case True
      then have "s' = snd (create ext (Some q) k True (delete_GameInfo q s))"
        using g entry Some by (simp add: GetInfo_def deref_live seq_Inr)
      then show ?thesis
        using reachable.started_over [OF r entry Some] True by simp
    next
      case False
      then obtain s1 s2 s3 where
        1: "decode_icon ext q s = Inr s1" and 2: "decode_pic0 ext q s1 = Inr s2" and
        3: "decode_pic1 ext q s2 = Inr s3" and 4: "touch ext q s3 = Inr s'"
        using g entry Some by (auto simp: GetInfo_def deref_live seq_Inr seq_eq_Inr)
      obtain i1 where m1: "info_map s1 = info_map s" "infos s1 = (infos s)(q \<mapsto> i1)"
        using decode_icon_frame [OF Some, of ext] 1 by auto
      then have l1: "infos s1 q = Some i1" by simp
      obtain i2 where m2: "info_map s2 = info_map s1" "infos s2 = (infos s1)(q \<mapsto> i2)"
        using decode_pic0_frame [OF l1, of ext] 2 by auto
      then have l2: "infos s2 q = Some i2" by simp
      obtain i3 where m3: "info_map s3 = info_map s2" "infos s3 = (infos s2)(q \<mapsto> i3)"
        using decode_pic1_frame [OF l2, of ext] 3 by auto
      have r1: "reachable ext s1 rs" using reachable.icon_decoded [OF r entry 1] .
      have r2: "reachable ext s2 rs" using reachable.pic0_decoded [OF r1 _ 2] entry m1 by simp
      have r3: "reachable ext s3 rs" using reachable.pic1_decoded [OF r2 _ 3] entry m1 m2 by simp
      show ?thesis using reachable.touched [OF r3 _ 4] entry m1 m2 m3 by simp
    qed
  qed
qed

lemma release_BGs_info_map:
  "release_BGs p s = Inr s' \<Longrightarrow> info_map s' = info_map s"
  by (cases "infos s p") (auto simp: release_BGs_def deref_def seq_def Let_def delete_Texture_eq)

lemma for_each_release_reachable:
  assumes "reachable ext s rs" and "set m \<subseteq> set (info_map s)"
    and "for_each_info release_BGs m s = Inr s'"
  shows "reachable ext s' rs \<and> info_map s' = info_map s"
  using assms
proof (induction m arbitrary: s)
  case Nil
  then show ?case by simp
next
  case (Cons e m)
  then obtain s1 where 1: "release_BGs (snd e) s = Inr s1" and
    2: "for_each_info release_BGs m s1 = Inr s'"
    by (auto simp: seq_eq_Inr)
  have "(fst e, snd e) \<in> set (info_map s)" using Cons.prems(2) by simp
  then have r1: "reachable ext s1 rs" using reachable.released [OF Cons.prems(1) _ 1] by blast
  have m1: "info_map s1 = info_map s" using 1 by (rule release_BGs_info_map)
  then have "set m \<subseteq> set (info_map s1)" using Cons.prems(2) by simp
  from Cons.IH [OF r1 this 2] m1 show ?case by simp
qed

lemma FlushBGs_reachable:
  "reachable ext s rs \<Longrightarrow> FlushBGs s = Inr s' \<Longrightarrow> reachable ext s' rs"
  unfolding FlushBGs_def using for_each_release_reachable [of ext s rs "info_map s" s'] by simp

lemma drain_reachable:
  "reachable ext s rs \<Longrightarrow> drain ext n s = Inr s' \<Longrightarrow> \<exists>rs'. reachable ext s' rs'"
proof (induction n arbitrary: s rs)
  case 0
  then show ?case by auto
next
  case (Suc n)
  then obtain s1 where 1: "run_queued ext 0 s = Inr s1" and 2: "drain ext n s1 = Inr s'"
    by (auto simp: seq_eq_Inr)
  from run_queued_reachable [OF Suc.prems(1) 1] obtain rs1 where "reachable ext s1 rs1" ..
  from Suc.IH [OF this 2] show ?case .
qed

lemma Clear_reachable:
  assumes "reachable ext s rs" and "Clear ext s = Inr s'"
  shows "\<exists>rs'. reachable ext s' rs'"
proof -
  from assms(2) obtain s1 s2 where 1: "drain ext (length (gameInfoWQ s)) s = Inr s1"
    and 2: "for_each_info release_BGs (info_map s1) s1 = Inr s2" and 3: "s' = s2\<lparr>info_map := []\<rparr>"
    by (auto simp: Clear_def Flush_def seq_eq_Inr)
  obtain rs1 where "reachable ext s1 rs1" using drain_reachable [OF assms(1) 1] ..
  then have "reachable ext s2 rs1" using for_each_release_reachable [OF _ _ 2] by simp
  then show ?thesis unfolding 3 by (blast intro: reachable.map_cleared)
qed

section \<open>The map of a reachable cache\<close>

text \<open>The hypothesis \<open>map_live\<close> of the statement on \<^verbatim>\<open>FlushBGs\<close> holds in every state the cache
  reaches: \<^verbatim>\<open>GetInfo\<close> assigns the map a new record whenever it deletes the old one, in the same
  step, and nothing else deletes a record.\<close>

lemma set_map_assign: "fst ` set (map_assign k v m) = insert k (fst ` set m)"
proof -
  have "fst ` set (map_assign k v m) = dom (map_of (map_assign k v m))"
    by (simp add: dom_map_of_conv_image_fst)
  also have "\<dots> = insert k (dom (map_of m))"
    by (simp add: map_of_map_assign)
  finally show ?thesis
    by (simp add: dom_map_of_conv_image_fst)
qed

lemma sorted_map_assign:
  "sorted_wrt (<) (map fst m) \<Longrightarrow> sorted_wrt (<) (map fst (map_assign k v m))"
proof (induction m)
  case Nil
  then show ?case by simp
next
  case (Cons e m)
  obtain k' v' where e: "e = (k', v')" by (cases e)
  have tl: "sorted_wrt (<) (map fst (map_assign k v m))"
    using Cons by simp
  have above: "\<And>x. x \<in> fst ` set m \<Longrightarrow> k' < x"
    using Cons.prems unfolding e by auto
  show ?case
  proof (cases "k = k'")
    case True
    then show ?thesis using Cons.prems unfolding e by simp
  next
    case False
    show ?thesis
    proof (cases "k < k'")
      case True
      then show ?thesis
        using Cons.prems False above unfolding e by (auto intro: less_trans)
    next
      case False
      then have "k' < k" using \<open>k \<noteq> k'\<close> by simp
      then have "\<And>x. x \<in> fst ` set (map_assign k v m) \<Longrightarrow> k' < x"
        using above unfolding set_map_assign by auto
      then show ?thesis
        using tl False \<open>k \<noteq> k'\<close> unfolding e by auto
    qed
  qed
qed

lemma sorted_keys_distinct: "sorted_wrt (<) (map fst m) \<Longrightarrow> distinct (map fst m)"
  for m :: "(string \<times> nat) list"
  by (simp add: strict_sorted_iff)

lemma map_invI:
  assumes "sorted_wrt (<) (map fst (info_map s))"
    and "\<And>k p. map_of (info_map s) k = Some p \<Longrightarrow> p < info_next s"
    and "\<And>k p. map_of (info_map s) k = Some p \<Longrightarrow> infos s p \<noteq> None"
    and "\<And>k1 k2 p. map_of (info_map s) k1 = Some p \<Longrightarrow> map_of (info_map s) k2 = Some p \<Longrightarrow> k1 = k2"
    and "\<And>w. w \<in> set (gameInfoWQ s) \<Longrightarrow> item_info w < info_next s"
    and "\<And>r. r \<in> set rs \<Longrightarrow> fst r < info_next s"
  shows "map_inv s rs"
  unfolding map_inv_def using assms by blast

lemma map_invD:
  assumes "map_inv s rs"
  shows "sorted_wrt (<) (map fst (info_map s))"
    and "\<And>k p. map_of (info_map s) k = Some p \<Longrightarrow> p < info_next s"
    and "\<And>k p. map_of (info_map s) k = Some p \<Longrightarrow> infos s p \<noteq> None"
    and "\<And>k1 k2 p. map_of (info_map s) k1 = Some p \<Longrightarrow> map_of (info_map s) k2 = Some p \<Longrightarrow> k1 = k2"
    and "\<And>w. w \<in> set (gameInfoWQ s) \<Longrightarrow> item_info w < info_next s"
    and "\<And>r. r \<in> set rs \<Longrightarrow> fst r < info_next s"
  using assms unfolding map_inv_def by blast+

text \<open>A step that leaves the map, the queue and the counter alone and deletes no record.\<close>

lemma map_inv_frame:
  assumes "map_inv s rs" and "info_map s' = info_map s" and "info_next s' = info_next s"
    and "gameInfoWQ s' = gameInfoWQ s"
    and "\<And>p. infos s p \<noteq> None \<Longrightarrow> infos s' p \<noteq> None"
  shows "map_inv s' rs"
  using assms unfolding map_inv_def by auto

text \<open>A record at an address never used before, with or without a \<^verbatim>\<open>delete\<close> before it.\<close>

lemma map_inv_create_new:
  assumes inv: "map_inv s rs"
    and gone: "\<And>k p. map_of (info_map s) k = Some p \<Longrightarrow> infos s0 p = None \<Longrightarrow> k = k0"
    and same: "info_map s0 = info_map s" "info_next s0 = info_next s" "gameInfoWQ s0 = gameInfoWQ s"
    and rest: "\<And>p. infos s0 p = None \<or> infos s0 p = infos s p"
  shows "map_inv (snd (create ext None k0 bg s0)) rs"
proof (rule map_invI)
  note I = map_invD [OF inv]
  let ?n = "info_next s"
  let ?s' = "snd (create ext None k0 bg s0)"
  have f: "infos ?s' = (infos s0)(?n \<mapsto> GameInfo_new\<lparr>wantBG := bg\<rparr>)"
    "info_next ?s' = Suc ?n"
    "info_map ?s' = map_assign k0 ?n (info_map s)"
    "gameInfoWQ ?s' = gameInfoWQ s @ [\<lparr>item_gamePath = k0, item_info = ?n\<rparr>]"
    by (simp_all add: create_None same)
  have m: "map_of (info_map ?s') = (map_of (info_map s))(k0 \<mapsto> ?n)"
    unfolding f(3) by (rule map_of_map_assign)
  show "sorted_wrt (<) (map fst (info_map ?s'))"
    unfolding f(3) using I(1) by (rule sorted_map_assign)
  { fix k p assume a: "map_of (info_map ?s') k = Some p"
    show "p < info_next ?s'"
      using a I(2) [of k p] unfolding m f(2) by (auto split: if_splits)
    show "infos ?s' p \<noteq> None"
    proof (cases "k = k0")
      case True
      then show ?thesis using a unfolding m f(1) by simp
    next
      case False
      then have b: "map_of (info_map s) k = Some p" using a unfolding m by simp
      then have "infos s0 p \<noteq> None" using gone [of k p] I(3) [of k p] rest [of p] False by auto
      then show ?thesis unfolding f(1) by simp
    qed }
  { fix k1 k2 p
    assume a: "map_of (info_map ?s') k1 = Some p" "map_of (info_map ?s') k2 = Some p"
    show "k1 = k2"
      using a I(2) [of k1 p] I(2) [of k2 p] I(4) [of k1 p k2] unfolding m
      by (auto split: if_splits) }
  { fix w assume "w \<in> set (gameInfoWQ ?s')"
    then show "item_info w < info_next ?s'"
      using I(5) [of w] unfolding f(2) f(4) by auto }
  { fix r assume "r \<in> set rs"
    then show "fst r < info_next ?s'"
      using I(6) [of r] unfolding f(2) by simp }
qed

lemma map_inv_create:
  assumes "map_inv s rs"
  shows "map_inv (snd (create ext None k0 bg s)) rs"
proof (rule map_inv_create_new [OF assms, of s])
  fix k p assume "map_of (info_map s) k = Some p" "infos s p = None"
  then show "k = k0" using map_invD(3) [OF assms] by blast
qed simp_all

text \<open>The \<^verbatim>\<open>delete\<close> of the key's record and a new record for the key, at the same address or at
  a new one.\<close>

lemma map_inv_started_over:
  assumes inv: "map_inv s rs" and k: "map_of (info_map s) k0 = Some p0"
  shows "map_inv (snd (create ext (Some p0) k0 bg (delete_GameInfo p0 s))) rs"
proof (cases "new_reuses_deleted ext p0")
  case False
  have "map_inv (snd (create ext None k0 bg (delete_GameInfo p0 s))) rs"
  proof (rule map_inv_create_new [OF inv, of "delete_GameInfo p0 s"])
    fix k p assume a: "map_of (info_map s) k = Some p" "infos (delete_GameInfo p0 s) p = None"
    have "infos s p \<noteq> None" using map_invD(3) [OF inv a(1)] .
    then have "p = p0" using a(2) by (auto simp: delete_GameInfo_def split: if_splits)
    then show "k = k0" using map_invD(4) [OF inv a(1)] k by blast
  qed (auto simp: delete_GameInfo_def)
  then show ?thesis
    using False by (simp add: create_not_reused)
next
  case True
  note I = map_invD [OF inv]
  let ?s' = "snd (create ext (Some p0) k0 bg (delete_GameInfo p0 s))"
  have "p0 < info_next (delete_GameInfo p0 s)"
    using I(2) [OF k] by (simp add: delete_GameInfo_def)
  from create_reused [OF True this, of k0 bg]
  have f: "infos ?s' = (infos s)(p0 \<mapsto> GameInfo_new\<lparr>wantBG := bg\<rparr>)"
    "info_next ?s' = info_next s"
    "info_map ?s' = map_assign k0 p0 (info_map s)"
    "gameInfoWQ ?s' = gameInfoWQ s @ [\<lparr>item_gamePath = k0, item_info = p0\<rparr>]"
    by (simp_all add: delete_GameInfo_def)
  have m: "map_of (info_map ?s') = map_of (info_map s)"
    unfolding f(3) using k by (simp add: map_of_map_assign fun_upd_idem)
  show ?thesis
  proof (rule map_invI)
    show "sorted_wrt (<) (map fst (info_map ?s'))"
      unfolding f(3) using I(1) by (rule sorted_map_assign)
    { fix k p assume a: "map_of (info_map ?s') k = Some p"
      show "p < info_next ?s'" using a I(2) [of k p] unfolding m f(2) by simp
      show "infos ?s' p \<noteq> None" using a I(3) [of k p] unfolding m f(1) by simp }
    { fix k1 k2 p
      assume "map_of (info_map ?s') k1 = Some p" "map_of (info_map ?s') k2 = Some p"
      then show "k1 = k2" using I(4) [of k1 p k2] unfolding m by simp }
    { fix w assume "w \<in> set (gameInfoWQ ?s')"
      then show "item_info w < info_next ?s'"
        using I(5) [of w] I(2) [OF k] unfolding f(2) f(4) by auto }
    { fix r assume "r \<in> set rs"
      then show "fst r < info_next ?s'" using I(6) [of r] unfolding f(2) by simp }
  qed
qed

lemma prog_step_frame:
  assumes "prog_step p k s = Inr (s', k')"
  shows "info_map s' = info_map s \<and> info_next s' = info_next s \<and> gameInfoWQ s' = gameInfoWQ s \<and>
         (\<forall>q. infos s q \<noteq> None \<longrightarrow> infos s' q \<noteq> None)"
  using assms
  by (cases k; cases "infos s p") (auto simp: seq_def modify_def deref_def)

lemma reachable_map_inv: "reachable ext s rs \<Longrightarrow> map_inv s rs"
proof (induction rule: reachable.induct)
  case init
  show ?case by (simp add: map_inv_def GameInfoCache_new_def)
next
  case (created s rs k bg)
  then show ?case by (simp add: map_inv_create)
next
  case (started_over s rs k p i)
  then show ?case by (simp add: map_inv_started_over)
next
  case (icon_decoded s rs k p s')
  obtain i where "infos s p = Some i"
    using icon_decoded.hyps(2) icon_decoded.IH unfolding map_inv_def by blast
  from decode_icon_frame [OF this, of ext] icon_decoded.hyps(3) icon_decoded.IH
  show ?case by (auto intro!: map_inv_frame [of s rs s'])
next
  case (pic0_decoded s rs k p s')
  obtain i where "infos s p = Some i"
    using pic0_decoded.hyps(2) pic0_decoded.IH unfolding map_inv_def by blast
  from decode_pic0_frame [OF this, of ext] pic0_decoded.hyps(3) pic0_decoded.IH
  show ?case by (auto intro!: map_inv_frame [of s rs s'])
next
  case (pic1_decoded s rs k p s')
  obtain i where "infos s p = Some i"
    using pic1_decoded.hyps(2) pic1_decoded.IH unfolding map_inv_def by blast
  from decode_pic1_frame [OF this, of ext] pic1_decoded.hyps(3) pic1_decoded.IH
  show ?case by (auto intro!: map_inv_frame [of s rs s'])
next
  case (touched s rs k p s')
  obtain i where i: "infos s p = Some i"
    using touched.hyps(2) touched.IH unfolding map_inv_def by blast
  have "s' = s\<lparr>clock_reads := Suc (clock_reads s),
      infos := (infos s)(p \<mapsto> i\<lparr>lastAccessedTime := time_now_d ext (clock_reads s)\<rparr>)\<rparr>"
    using touched.hyps(3) touch_live [OF i, of ext] by simp
  then have "info_map s' = info_map s" "info_next s' = info_next s" "gameInfoWQ s' = gameInfoWQ s"
    "\<And>q. infos s q \<noteq> None \<Longrightarrow> infos s' q \<noteq> None"
    by simp_all
  with touched.IH show ?case by (rule map_inv_frame)
next
  case (released s rs k p s')
  have "distinct (map fst (info_map s))"
    using released.IH by (simp add: map_inv_def sorted_keys_distinct)
  then have "map_of (info_map s) k = Some p" using released.hyps(2) by simp
  then obtain i where i: "infos s p = Some i"
    using released.IH unfolding map_inv_def by blast
  have "s' = s\<lparr>textures := textures s - set_option (pic0Texture i) - set_option (pic1Texture i),
                infos := (infos s)(p \<mapsto> i\<lparr>pic0TextureData := [], pic0Texture := None,
                                            pic1TextureData := [], pic1Texture := None\<rparr>)\<rparr>"
    using released.hyps(3) release_BGs_live [OF i] by simp
  then have "info_map s' = info_map s" "info_next s' = info_next s" "gameInfoWQ s' = gameInfoWQ s"
    "\<And>q. infos s q \<noteq> None \<Longrightarrow> infos s' q \<noteq> None"
    by simp_all
  with released.IH show ?case by (rule map_inv_frame)
next
  case (map_cleared s rs)
  then show ?case by (simp add: map_inv_def)
next
  case (item_started s rs n)
  note I = map_invD [OF item_started.IH]
  let ?w = "gameInfoWQ s ! n"
  have wq: "?w \<in> set (gameInfoWQ s)" using item_started.hyps(2) by simp
  show ?case
  proof (rule map_invI)
    fix w
    assume "w \<in> set (gameInfoWQ (s\<lparr>gameInfoWQ := take n (gameInfoWQ s) @ drop (Suc n) (gameInfoWQ s)\<rparr>))"
    then have "w \<in> set (gameInfoWQ s)" by (auto dest: in_set_takeD in_set_dropD)
    then show "item_info w
      < info_next (s\<lparr>gameInfoWQ := take n (gameInfoWQ s) @ drop (Suc n) (gameInfoWQ s)\<rparr>)"
      using I(5) by simp
  next
    fix r assume "r \<in> set (rs @ [(item_info ?w, run_prog ext ?w)])"
    then show "fst r < info_next (s\<lparr>gameInfoWQ := take n (gameInfoWQ s) @ drop (Suc n) (gameInfoWQ s)\<rparr>)"
      using I(6) [of r] I(5) [OF wq] by auto
  qed (use I in auto)
next
  case (item_stepped s rs m s' k')
  note I = map_invD [OF item_stepped.IH]
  note f = prog_step_frame [OF item_stepped.hyps(3)]
  have "map_inv s' rs"
    using item_stepped.IH f by (auto intro!: map_inv_frame [of s rs s'])
  then have J: "map_inv s' rs" .
  show ?case
  proof (rule map_invI)
    fix r assume "r \<in> set (rs[m := (fst (rs ! m), k')])"
    then have "r = (fst (rs ! m), k') \<or> r \<in> set rs"
      using set_update_subset_insert [of rs m "(fst (rs ! m), k')"] by auto
    moreover have "rs ! m \<in> set rs" using item_stepped.hyps(2) by simp
    ultimately show "fst r < info_next s'"
      using map_invD(6) [OF J, of r] map_invD(6) [OF J, of "rs ! m"] by auto
  qed (use map_invD [OF J] in auto)
qed

lemma reachable_map_live:
  assumes "reachable ext s rs"
  shows "map_live s"
proof -
  have inv: "map_inv s rs" using assms by (rule reachable_map_inv)
  then have d: "distinct (map fst (info_map s))" by (simp add: map_inv_def sorted_keys_distinct)
  show ?thesis
    unfolding map_live_def list_all_iff
  proof
    fix e assume "e \<in> set (info_map s)"
    then have "map_of (info_map s) (fst e) = Some (snd e)" using d by simp
    then show "infos s (snd e) \<noteq> None" using map_invD(3) [OF inv] by blast
  qed
qed

section \<open>Lookups of one key\<close>

lemma later_reachable:
  assumes "reachable ext s0 rs0" and "later ext k0 s0 rs0 s rs"
  shows "reachable ext s rs"
  using assms(2)
proof (induction rule: later.induct)
  case same
  show ?case by (rule assms(1))
next
  case (created s rs k bg)
  then show ?case by (simp add: reachable.created)
next
  case (started_over s rs k p i)
  then show ?case by (simp add: reachable.started_over)
next
  case (icon_decoded s rs k p s')
  then show ?case by (blast intro: reachable.icon_decoded)
next
  case (pic0_decoded s rs k p s')
  then show ?case by (blast intro: reachable.pic0_decoded)
next
  case (pic1_decoded s rs k p s')
  then show ?case by (blast intro: reachable.pic1_decoded)
next
  case (touched s rs k p s')
  then show ?case by (blast intro: reachable.touched)
next
  case (released s rs k p s')
  then show ?case by (blast intro: reachable.released)
next
  case (item_started s rs n)
  then show ?case by (simp add: reachable.item_started)
next
  case (item_stepped s rs m s' k')
  then show ?case by (simp add: reachable.item_stepped)
qed

lemma decode_icon_info_map: "decode_icon ext p s = Inr s' \<Longrightarrow> info_map s' = info_map s"
  using decode_icon_frame [of s p _ ext]
  by (cases "infos s p") (auto simp: decode_icon_def deref_dead seq_Inl)

lemma decode_pic0_info_map: "decode_pic0 ext p s = Inr s' \<Longrightarrow> info_map s' = info_map s"
  using decode_pic0_frame [of s p _ ext]
  by (cases "infos s p") (auto simp: decode_pic0_def deref_dead seq_Inl)

lemma decode_pic1_info_map: "decode_pic1 ext p s = Inr s' \<Longrightarrow> info_map s' = info_map s"
  using decode_pic1_frame [of s p _ ext]
  by (cases "infos s p") (auto simp: decode_pic1_def deref_dead seq_Inl)

lemma touch_info_map: "touch ext p s = Inr s' \<Longrightarrow> info_map s' = info_map s"
  by (cases "infos s p") (auto simp: touch_def read_clock_def modify_def)

text \<open>No step but the two left out assigns or erases the map's entry of the key.\<close>

lemma later_keeps_entry:
  assumes "later ext k0 s0 rs0 s rs" and "map_of (info_map s0) k0 = Some p"
  shows "map_of (info_map s) k0 = Some p"
  using assms
proof (induction rule: later.induct)
  case same
  then show ?case by simp
next
  case (created s rs k bg)
  then have "k \<noteq> k0" by auto
  then show ?case
    using created by (simp add: create_None map_of_map_assign)
next
  case (started_over s rs k q i)
  then show ?case
    by (simp add: create_def Let_def map_of_map_assign delete_GameInfo_def)
next
  case (icon_decoded s rs k q s')
  then show ?case by (simp add: decode_icon_info_map)
next
  case (pic0_decoded s rs k q s')
  then show ?case by (simp add: decode_pic0_info_map)
next
  case (pic1_decoded s rs k q s')
  then show ?case by (simp add: decode_pic1_info_map)
next
  case (touched s rs k q s')
  then show ?case by (simp add: touch_info_map)
next
  case (released s rs k q s')
  then show ?case by (simp add: release_BGs_info_map)
next
  case (item_started s rs n)
  then show ?case by simp
next
  case (item_stepped s rs m s' k')
  then show ?case using prog_step_frame [OF item_stepped.hyps(3)] by simp
qed

text \<open>A call that finds the record and does not start over is four of the steps.\<close>

lemma GetInfo_hit_later:
  assumes l: "later ext k0 s0 rs0 s rs" and entry: "map_of (info_map s) k = Some q"
    and live: "infos s q = Some i" and stay: "\<not> (\<not> wantBG i \<and> bg)"
    and g: "GetInfo ext k bg s = Inr (p, s')"
  shows "later ext k0 s0 rs0 s' rs"
proof -
  obtain s1 s2 s3 where
    1: "decode_icon ext q s = Inr s1" and 2: "decode_pic0 ext q s1 = Inr s2" and
    3: "decode_pic1 ext q s2 = Inr s3" and 4: "touch ext q s3 = Inr s'"
    using g entry live stay by (auto simp: GetInfo_def deref_live seq_Inr seq_eq_Inr)
  have m1: "info_map s1 = info_map s" using 1 by (rule decode_icon_info_map)
  have m2: "info_map s2 = info_map s" using 2 m1 by (simp add: decode_pic0_info_map)
  have m3: "info_map s3 = info_map s" using 3 m2 by (simp add: decode_pic1_info_map)
  have l1: "later ext k0 s0 rs0 s1 rs" using later.icon_decoded [OF l entry 1] .
  have l2: "later ext k0 s0 rs0 s2 rs" using later.pic0_decoded [OF l1 _ 2] entry m1 by simp
  have l3: "later ext k0 s0 rs0 s3 rs" using later.pic1_decoded [OF l2 _ 3] entry m2 by simp
  show ?thesis using later.touched [OF l3 _ 4] entry m3 by simp
qed

text \<open>
  Claim C8, as the spec states it: repeated calls \<^verbatim>\<open>GetInfo(k, false)\<close> with no \<^verbatim>\<open>Clear\<close> between
  them all return the same record. It fails when a call \<^verbatim>\<open>GetInfo(k, true)\<close> comes between two
  of them and finds the record without backgrounds: that call deletes the record and makes
  another. The first and the third call below ask without backgrounds and nothing clears the
  cache; they return the addresses 0 and 1, and the record at address 0 is gone.
\<close>

theorem start_over_between_lookups_counterexample:
  "seq (GetInfo sample_ext ''game.iso'' False GameInfoCache_new) (\<lambda>(p1, s1).
   seq (GetInfo sample_ext ''game.iso'' True s1) (\<lambda>(p2, s2).
   seq (GetInfo sample_ext ''game.iso'' False s2) (\<lambda>(p3, s3).
     Inr (p1, p2, p3, infos s3 p1, map_of (info_map s3) ''game.iso''))))
   = Inr (0, 1, 1, None, Some 1)"
  by (auto simp: eval_defs)

text \<open>
  Claim C8, amended: after a call of \<^verbatim>\<open>GetInfo\<close> for a key has returned a record, every call
  \<^verbatim>\<open>GetInfo(k, false)\<close> returns that same record, for as long as neither \<^verbatim>\<open>Clear\<close> empties the map
  nor a call \<^verbatim>\<open>GetInfo(k, true)\<close> for this key starts over. Whatever else happens in between, in
  any order (lookups of this key that find the record, lookups and start-overs of other keys,
  \<^verbatim>\<open>FlushBGs\<close>, the steps of work items), the map's entry for the key is still the address the
  first call returned, the record there has not been deleted (no other key has this address,
  so that no start-over of another key deletes it and puts a new record in its place), and
  the call returns that address as a hit: it adds no entry, no record and no work item, and
  the state after it is again one in which the next call finds the same record.
\<close>

theorem lookups_return_same_record:
  assumes "reachable ext s0 rs0"
    and "GetInfo ext k bg s0 = Inr (p, s1)"
    and "later ext k s1 rs0 s rs"
  shows "map_of (info_map s) k = Some p \<and> infos s p \<noteq> None \<and>
         (\<forall>k' q. map_of (info_map s) k' = Some q \<and> k' \<noteq> k \<longrightarrow> q \<noteq> p) \<and>
         (\<exists>s'. GetInfo ext k False s = Inr (p, s') \<and> later ext k s1 rs0 s' rs \<and>
            info_map s' = info_map s \<and> gameInfoWQ s' = gameInfoWQ s \<and>
            info_next s' = info_next s \<and> infos s' p \<noteq> None)"
proof -
  have r1: "reachable ext s1 rs0"
    using assms(1,2) by (rule GetInfo_reachable)
  have e1: "map_of (info_map s1) k = Some p"
    using GetInfo_returns_entry [OF assms(2)] by simp
  have e: "map_of (info_map s) k = Some p"
    using assms(3) e1 by (rule later_keeps_entry)
  have r: "reachable ext s rs"
    using r1 assms(3) by (rule later_reachable)
  obtain i where i: "infos s p = Some i"
    using map_invD(3) [OF reachable_map_inv [OF r] e] by auto
  obtain s' i' where h: "GetInfo ext k False s = Inr (p, s')" "infos s' = (infos s)(p \<mapsto> i')"
    "info_map s' = info_map s" "gameInfoWQ s' = gameInfoWQ s" "info_next s' = info_next s"
    using GetInfo_hit [OF e i, of False ext] by auto
  have l: "later ext k s1 rs0 s' rs"
    using assms(3) e i _ h(1) by (rule GetInfo_hit_later) simp
  have "q \<noteq> p" if "map_of (info_map s) k' = Some q" "k' \<noteq> k" for k' q
    using map_invD(4) [OF reachable_map_inv [OF r] e, of k'] that by auto
  then show ?thesis
    using e i h l by auto
qed

theorem lookups_return_same_record_witness:
  "reachable sample_ext GameInfoCache_new [] \<and>
   GetInfo sample_ext ''a.PBP'' False GameInfoCache_new = Inr (0, cache_with ''a.PBP'' False) \<and>
   later sample_ext ''a.PBP'' (cache_with ''a.PBP'' False) []
     (snd (create sample_ext None ''b.PBP'' True (cache_with ''a.PBP'' False))) [] \<and>
   map_of (info_map (snd (create sample_ext None ''b.PBP'' True (cache_with ''a.PBP'' False))))
     ''b.PBP'' = Some 1 \<and>
   (\<exists>s'. GetInfo sample_ext ''a.PBP'' False
            (snd (create sample_ext None ''b.PBP'' True (cache_with ''a.PBP'' False)))
          = Inr (0, s') \<and>
      info_map s' = [(''a.PBP'', 0), (''b.PBP'', 1)] \<and> length (gameInfoWQ s') = 2 \<and>
      info_next s' = 2 \<and> infos s' 0 \<noteq> None)"
proof -
  let ?s1 = "cache_with ''a.PBP'' False"
  let ?s = "snd (create sample_ext None ''b.PBP'' True ?s1)"
  have 1: "reachable sample_ext GameInfoCache_new []"
    by (rule reachable.init)
  have 2: "GetInfo sample_ext ''a.PBP'' False GameInfoCache_new = Inr (0, ?s1)"
    by (simp add: GetInfo_def GameInfoCache_new_def cache_with_def create_None)
  have "map_of (info_map ?s1) ''b.PBP'' = None"
    by (simp add: cache_with_eq)
  from later.created [OF later.same this, of sample_ext "''a.PBP''" "[]" True]
  have 3: "later sample_ext ''a.PBP'' ?s1 [] ?s []" .
  have 4: "info_map ?s = [(''a.PBP'', 0), (''b.PBP'', 1)]" "length (gameInfoWQ ?s) = 2"
    "info_next ?s = 2"
    by (simp_all add: create_None cache_with_eq)
  from lookups_return_same_record [OF 1 2 3] 1 2 3 4 show ?thesis
    by auto
qed

section \<open>Raw bytes and decoded texture in one slot\<close>

text \<open>
  Claim C6 says that at no point a slot of a record holds both raw bytes and a decoded
  texture. It fails where \<^verbatim>\<open>GetInfo\<close> starts over while the work item of the deleted record is
  still queued, and the allocator hands the freed block to the new record: two work items
  then point to one record. After \<^verbatim>\<open>GetInfo("a.PBP", false)\<close> and \<^verbatim>\<open>GetInfo("a.PBP", true)\<close>, which
  both return address 0, the first work item runs and fills the icon buffer; the next
  \<^verbatim>\<open>GetInfo\<close> decodes it into texture 0 and clears the buffer; then the second work item runs
  and fills the buffer again. The icon slot of the record now holds the bytes \<open>''png''\<close> and
  the texture 0.
\<close>

theorem stale_item_refills_decoded_slot:
  "seq (GetInfo reusing_ext ''a.PBP'' False GameInfoCache_new) (\<lambda>(p1, s1).
   seq (GetInfo reusing_ext ''a.PBP'' True s1) (\<lambda>(p2, s2).
   seq (run_queued reusing_ext 0 s2) (\<lambda>s3.
   seq (GetInfo reusing_ext ''a.PBP'' True s3) (\<lambda>(p3, s4).
   seq (run_queued reusing_ext 0 s4) (\<lambda>s5.
     Inr (p1, p2, p3, gameInfoWQ s2,
          map_option iconTextureData (infos s4 p3), map_option iconTexture (infos s4 p3),
          map_option iconTextureData (infos s5 p3), map_option iconTexture (infos s5 p3),
          map_option slots_exclusive (infos s5 p3)))))))
   = Inr (0, 0, 0,
          [\<lparr>item_gamePath = ''a.PBP'', item_info = 0\<rparr>, \<lparr>item_gamePath = ''a.PBP'', item_info = 0\<rparr>],
          Some [], Some (Some 0),
          Some ''png'', Some (Some 0),
          Some False)"
  by (auto simp: eval_defs slots_exclusive_def)

subsection \<open>Without a work item on a record that is not its own\<close>

text \<open>
  The rest of the section shows that the exclusion fails in no other way: where the
  allocator hands out no freed block again (so that a work item of a deleted record has no
  record to write to), it holds in every reachable state.
\<close>

lemma writes_only_simps:
  "writes_only X (\<lambda>i. i\<lparr>fileType := t\<rparr>)"
  "writes_only X (\<lambda>i. let sfo = g i in i\<lparr>paramSFO := sfo, title := h sfo\<rparr>)"
  "writes_only (Some Icon) (\<lambda>i. i\<lparr>iconTextureData := c i\<rparr>)"
  "writes_only (Some Pic0) (\<lambda>i. i\<lparr>pic0TextureData := c i\<rparr>)"
  "writes_only (Some Pic1) (\<lambda>i. i\<lparr>pic1TextureData := c i\<rparr>)"
  "writes_only X (\<lambda>i. i)"
  by (auto simp: writes_only_def Let_def; (case_tac Y; simp))+

lemma writes_only_if:
  "writes_only X f \<Longrightarrow> writes_only X g \<Longrightarrow> writes_only X (\<lambda>i. if b then f i else g i)"
  by (simp add: writes_only_def)

lemma prog_ok_PBP: "prog_ok (PBP_prog ext path)"
  by (simp add: PBP_prog_def writes_only_simps writes_only_if)

lemma targets_read_into_prog:
  "targets (read_into_prog ext img fn X get put k) \<subseteq> insert X (targets k)"
  by (auto simp: read_into_prog_def)

lemma prog_ok_ISO: "prog_ok (ISO_prog ext path)"
  by (cases "ReadFileToString ext path ''/PSP_GAME/PARAM.SFO'' []")
    (simp_all add: ISO_prog_def read_into_prog_def writes_only_simps)

lemma prog_ok_run: "prog_ok (run_prog ext item)"
  by (simp add: run_prog_def prog_ok_PBP prog_ok_ISO writes_only_simps)

lemma slot_empty_all:
  "(\<forall>X. slot_empty X i) \<longleftrightarrow>
     iconTextureData i = [] \<and> iconTexture i = None \<and> pic0TextureData i = [] \<and>
     pic0Texture i = None \<and> pic1TextureData i = [] \<and> pic1Texture i = None"
proof
  assume a: "\<forall>X. slot_empty X i"
  from a [rule_format, of Icon] a [rule_format, of Pic0] a [rule_format, of Pic1]
  show "iconTextureData i = [] \<and> iconTexture i = None \<and> pic0TextureData i = [] \<and>
     pic0Texture i = None \<and> pic1TextureData i = [] \<and> pic1Texture i = None"
    by (simp add: slot_empty_def)
next
  assume b: "iconTextureData i = [] \<and> iconTexture i = None \<and> pic0TextureData i = [] \<and>
     pic0Texture i = None \<and> pic1TextureData i = [] \<and> pic1Texture i = None"
  show "\<forall>X. slot_empty X i"
  proof
    fix X show "slot_empty X i" using b by (cases X) (simp_all add: slot_empty_def)
  qed
qed

lemma slots_exclusive_iff:
  "slots_exclusive i \<longleftrightarrow> (\<forall>X. slot_data X i = [] \<or> slot_texture X i = None)"
proof
  assume "slots_exclusive i"
  then show "\<forall>X. slot_data X i = [] \<or> slot_texture X i = None"
    by (auto simp: slots_exclusive_def) (case_tac X; simp)+
next
  assume a: "\<forall>X. slot_data X i = [] \<or> slot_texture X i = None"
  from a [rule_format, of Icon] a [rule_format, of Pic0] a [rule_format, of Pic1]
  show "slots_exclusive i" by (simp add: slots_exclusive_def)
qed

lemma cache_inv_update:
  assumes inv: "cache_inv s rs"
    and q: "gameInfoWQ s' = gameInfoWQ s" and n: "info_next s' = info_next s"
    and u: "infos s' = (infos s)(p \<mapsto> i')"
    and live: "infos s p = Some i"
    and ex: "slots_exclusive i'"
    and em: "\<And>X. slot_empty X i \<Longrightarrow> slot_empty X i'"
  shows "cache_inv s' rs"
  using inv live ex em unfolding cache_inv_def q n u
  by (auto simp: Ball_def)

lemma slot_forall:
  "(\<forall>X. P X) \<longleftrightarrow> P Icon \<and> P Pic0 \<and> P Pic1"
  by (metis slot.exhaust)

lemma decode_icon_slots:
  assumes "infos s p = Some i" and "slots_exclusive i"
  shows "\<exists>s' i'. decode_icon ext p s = Inr s' \<and> infos s' = (infos s)(p \<mapsto> i') \<and>
           gameInfoWQ s' = gameInfoWQ s \<and> info_next s' = info_next s \<and>
           slots_exclusive i' \<and> (\<forall>X. slot_empty X i \<longrightarrow> slot_empty X i')"
proof (cases "iconTextureData i = []")
  case True
  moreover have "infos s = (infos s)(p \<mapsto> i)"
    using assms by (simp add: map_upd_triv)
  ultimately show ?thesis
    using assms(2) by (auto simp: decode_icon_live [OF assms(1)])
next
  case False
  then show ?thesis
    using assms(2) unfolding slot_forall
    by (auto simp: decode_icon_live [OF assms(1)] slots_exclusive_def slot_empty_def intro!: exI)
qed

lemma cache_inv_decode_icon:
  assumes "cache_inv s rs" and "decode_icon ext p s = Inr s'"
  shows "cache_inv s' rs"
proof (cases "infos s p")
  case None
  then show ?thesis
    using assms(2) by (simp add: decode_icon_def deref_dead seq_Inl)
next
  case (Some i)
  have "slots_exclusive i"
    using assms(1) Some by (simp add: cache_inv_def)
  from decode_icon_slots [OF Some this, of ext] assms(2)
  obtain i' where a: "infos s' = (infos s)(p \<mapsto> i')" "gameInfoWQ s' = gameInfoWQ s"
    "info_next s' = info_next s" "slots_exclusive i'" "\<forall>X. slot_empty X i \<longrightarrow> slot_empty X i'"
    by auto
  show ?thesis
    by (rule cache_inv_update [OF assms(1) a(2) a(3) a(1) Some a(4)]) (use a(5) in blast)
qed

lemma decode_pic0_slots:
  assumes "infos s p = Some i" and "slots_exclusive i"
  shows "\<exists>s' i'. decode_pic0 ext p s = Inr s' \<and> infos s' = (infos s)(p \<mapsto> i') \<and>
           gameInfoWQ s' = gameInfoWQ s \<and> info_next s' = info_next s \<and>
           slots_exclusive i' \<and> (\<forall>X. slot_empty X i \<longrightarrow> slot_empty X i')"
proof (cases "pic0TextureData i = []")
  case True
  moreover have "infos s = (infos s)(p \<mapsto> i)"
    using assms by (simp add: map_upd_triv)
  ultimately show ?thesis
    using assms(2) by (auto simp: decode_pic0_live [OF assms(1)])
next
  case False
  then show ?thesis
    using assms(2) unfolding slot_forall
    by (auto simp: decode_pic0_live [OF assms(1)] slots_exclusive_def slot_empty_def intro!: exI)
qed

lemma cache_inv_decode_pic0:
  assumes "cache_inv s rs" and "decode_pic0 ext p s = Inr s'"
  shows "cache_inv s' rs"
proof (cases "infos s p")
  case None
  then show ?thesis
    using assms(2) by (simp add: decode_pic0_def deref_dead seq_Inl)
next
  case (Some i)
  have "slots_exclusive i"
    using assms(1) Some by (simp add: cache_inv_def)
  from decode_pic0_slots [OF Some this, of ext] assms(2)
  obtain i' where a: "infos s' = (infos s)(p \<mapsto> i')" "gameInfoWQ s' = gameInfoWQ s"
    "info_next s' = info_next s" "slots_exclusive i'" "\<forall>X. slot_empty X i \<longrightarrow> slot_empty X i'"
    by auto
  show ?thesis
    by (rule cache_inv_update [OF assms(1) a(2) a(3) a(1) Some a(4)]) (use a(5) in blast)
qed

lemma decode_pic1_slots:
  assumes "infos s p = Some i" and "slots_exclusive i"
  shows "\<exists>s' i'. decode_pic1 ext p s = Inr s' \<and> infos s' = (infos s)(p \<mapsto> i') \<and>
           gameInfoWQ s' = gameInfoWQ s \<and> info_next s' = info_next s \<and>
           slots_exclusive i' \<and> (\<forall>X. slot_empty X i \<longrightarrow> slot_empty X i')"
proof (cases "pic1TextureData i = []")
  case True
  moreover have "infos s = (infos s)(p \<mapsto> i)"
    using assms by (simp add: map_upd_triv)
  ultimately show ?thesis
    using assms(2) by (auto simp: decode_pic1_live [OF assms(1)])
next
  case False
  then show ?thesis
    using assms(2) unfolding slot_forall
    by (auto simp: decode_pic1_live [OF assms(1)] slots_exclusive_def slot_empty_def intro!: exI)
qed

lemma cache_inv_decode_pic1:
  assumes "cache_inv s rs" and "decode_pic1 ext p s = Inr s'"
  shows "cache_inv s' rs"
proof (cases "infos s p")
  case None
  then show ?thesis
    using assms(2) by (simp add: decode_pic1_def deref_dead seq_Inl)
next
  case (Some i)
  have "slots_exclusive i"
    using assms(1) Some by (simp add: cache_inv_def)
  from decode_pic1_slots [OF Some this, of ext] assms(2)
  obtain i' where a: "infos s' = (infos s)(p \<mapsto> i')" "gameInfoWQ s' = gameInfoWQ s"
    "info_next s' = info_next s" "slots_exclusive i'" "\<forall>X. slot_empty X i \<longrightarrow> slot_empty X i'"
    by auto
  show ?thesis
    by (rule cache_inv_update [OF assms(1) a(2) a(3) a(1) Some a(4)]) (use a(5) in blast)
qed

lemma slot_empty_touch:
  "slot_empty X (i\<lparr>lastAccessedTime := t\<rparr>) = slot_empty X i"
  by (cases X) (simp_all add: slot_empty_def)

lemma slot_empty_release:
  "slot_empty X i \<Longrightarrow>
   slot_empty X (i\<lparr>pic0TextureData := [], pic0Texture := None,
                   pic1TextureData := [], pic1Texture := None\<rparr>)"
  by (cases X) (simp_all add: slot_empty_def)

lemma cache_inv_touch:
  assumes "cache_inv s rs" and "touch ext p s = Inr s'"
  shows "cache_inv s' rs"
proof (cases "infos s p")
  case None
  then show ?thesis
    using assms(2) by (simp add: touch_def read_clock_def modify_def)
next
  case (Some i)
  let ?i' = "i\<lparr>lastAccessedTime := time_now_d ext (clock_reads s)\<rparr>"
  have s': "s' = s\<lparr>clock_reads := Suc (clock_reads s), infos := (infos s)(p \<mapsto> ?i')\<rparr>"
    using assms(2) touch_live [OF Some, of ext] by simp
  have "slots_exclusive i"
    using assms(1) Some by (simp add: cache_inv_def)
  then show ?thesis
    by (intro cache_inv_update [OF assms(1) _ _ _ Some, where i' = ?i'])
      (simp_all add: s' slots_exclusive_def slot_empty_touch)
qed

lemma cache_inv_release:
  assumes "cache_inv s rs" and "release_BGs p s = Inr s'"
  shows "cache_inv s' rs"
proof (cases "infos s p")
  case None
  then show ?thesis
    using assms(2) by (simp add: release_BGs_def deref_dead seq_Inl)
next
  case (Some i)
  let ?i' = "i\<lparr>pic0TextureData := [], pic0Texture := None,
               pic1TextureData := [], pic1Texture := None\<rparr>"
  have s': "s' = s\<lparr>textures := textures s - set_option (pic0Texture i) - set_option (pic1Texture i),
                infos := (infos s)(p \<mapsto> ?i')\<rparr>"
    using assms(2) release_BGs_live [OF Some] by simp
  have "slots_exclusive i"
    using assms(1) Some by (simp add: cache_inv_def)
  then show ?thesis
    by (intro cache_inv_update [OF assms(1) _ _ _ Some, where i' = ?i'])
      (simp_all add: s' slots_exclusive_def slot_empty_release)
qed

lemma GameInfo_new_empty: "slot_empty X (GameInfo_new\<lparr>wantBG := bg\<rparr>)"
  by (cases X) (simp_all add: slot_empty_def GameInfo_new_def)

lemma GameInfo_new_exclusive: "slots_exclusive (GameInfo_new\<lparr>wantBG := bg\<rparr>)"
  by (simp add: slots_exclusive_def GameInfo_new_def)

lemma cache_inv_create:
  assumes "cache_inv s rs"
  shows "cache_inv (snd (create ext None k bg s)) rs"
proof -
  let ?p = "info_next s"
  let ?s' = "snd (create ext None k bg s)"
  have f: "infos ?s' = (infos s)(?p \<mapsto> GameInfo_new\<lparr>wantBG := bg\<rparr>)"
    "info_next ?s' = Suc ?p"
    "gameInfoWQ ?s' = gameInfoWQ s @ [\<lparr>item_gamePath = k, item_info = ?p\<rparr>]"
    by (simp_all add: create_None)
  have old: "\<And>w. w \<in> set (gameInfoWQ s) \<Longrightarrow> item_info w \<noteq> ?p"
    "\<And>r. r \<in> set rs \<Longrightarrow> fst r \<noteq> ?p"
    using assms by (auto simp: cache_inv_def)
  show ?thesis
    using assms old unfolding cache_inv_def f
    by (auto simp: GameInfo_new_empty GameInfo_new_exclusive less_Suc_eq)
qed

lemma cache_inv_delete:
  assumes "cache_inv s rs"
  shows "cache_inv (delete_GameInfo p s) rs"
  using assms unfolding cache_inv_def delete_GameInfo_def by auto

lemma cache_inv_clear_map: "cache_inv s rs \<Longrightarrow> cache_inv (s\<lparr>info_map := []\<rparr>) rs"
  by (simp add: cache_inv_def)

lemma cache_inv_init: "cache_inv GameInfoCache_new []"
  by (simp add: cache_inv_def GameInfoCache_new_def)

lemma cache_inv_item_started:
  assumes inv: "cache_inv s rs" and n: "n < length (gameInfoWQ s)"
  shows "cache_inv (s\<lparr>gameInfoWQ := take n (gameInfoWQ s) @ drop (Suc n) (gameInfoWQ s)\<rparr>)
           (rs @ [(item_info (gameInfoWQ s ! n), run_prog ext (gameInfoWQ s ! n))])"
proof -
  define item where "item = gameInfoWQ s ! n"
  define xs where "xs = take n (gameInfoWQ s)"
  define ys where "ys = drop (Suc n) (gameInfoWQ s)"
  have q: "gameInfoWQ s = xs @ item # ys"
    unfolding xs_def ys_def item_def using n by (rule id_take_nth_drop)
  have "cache_inv (s\<lparr>gameInfoWQ := xs @ ys\<rparr>) (rs @ [(item_info item, run_prog ext item)])"
    using inv unfolding cache_inv_def q
    by (auto simp: prog_ok_run)
  then show ?thesis
    by (simp add: xs_def ys_def item_def)
qed

lemma cache_invI:
  assumes "\<And>p i. infos s p = Some i \<Longrightarrow> slots_exclusive i"
    and "\<And>w. w \<in> set (gameInfoWQ s) \<Longrightarrow> item_info w < info_next s"
    and "\<And>w i X. w \<in> set (gameInfoWQ s) \<Longrightarrow> infos s (item_info w) = Some i \<Longrightarrow> slot_empty X i"
    and "\<And>r. r \<in> set rs \<Longrightarrow> fst r < info_next s"
    and "\<And>r. r \<in> set rs \<Longrightarrow> prog_ok (snd r)"
    and "\<And>r i X. r \<in> set rs \<Longrightarrow> infos s (fst r) = Some i \<Longrightarrow> X \<in> targets (snd r) \<Longrightarrow>
           slot_empty X i"
    and "distinct (map item_info (gameInfoWQ s) @ map fst rs)"
  shows "cache_inv s rs"
  unfolding cache_inv_def using assms by blast

lemma cache_invD:
  assumes "cache_inv s rs"
  shows "\<And>p i. infos s p = Some i \<Longrightarrow> slots_exclusive i"
    and "\<And>w. w \<in> set (gameInfoWQ s) \<Longrightarrow> item_info w < info_next s"
    and "\<And>w i X. w \<in> set (gameInfoWQ s) \<Longrightarrow> infos s (item_info w) = Some i \<Longrightarrow> slot_empty X i"
    and "\<And>r. r \<in> set rs \<Longrightarrow> fst r < info_next s"
    and "\<And>r. r \<in> set rs \<Longrightarrow> prog_ok (snd r)"
    and "\<And>r i X. r \<in> set rs \<Longrightarrow> infos s (fst r) = Some i \<Longrightarrow> X \<in> targets (snd r) \<Longrightarrow>
           slot_empty X i"
    and "distinct (map item_info (gameInfoWQ s) @ map fst rs)"
  using assms unfolding cache_inv_def by blast+

text \<open>The entries of the list of running items after one of them took a step.\<close>

lemma running_after_step:
  assumes d: "distinct (map fst rs)" and m: "m < length rs"
    and r: "r \<in> set (rs[m := (fst (rs ! m), k')])"
  shows "r = (fst (rs ! m), k') \<or> (r \<in> set rs \<and> fst r \<noteq> fst (rs ! m))"
proof -
  from r obtain j where j: "j < length rs" "r = rs[m := (fst (rs ! m), k')] ! j"
    by (auto simp: in_set_conv_nth)
  show ?thesis
  proof (cases "j = m")
    case True
    then show ?thesis using j by simp
  next
    case False
    have "j < length (map fst rs)" "m < length (map fst rs)"
      using j(1) m by simp_all
    with d False have "map fst rs ! j \<noteq> map fst rs ! m"
      by (metis nth_eq_iff_index_eq)
    then have "fst (rs ! j) \<noteq> fst (rs ! m)"
      using j(1) m by simp
    then show ?thesis using False j by simp
  qed
qed

lemma fst_after_step:
  "m < length rs \<Longrightarrow> map fst (rs[m := (fst (rs ! m), k')]) = map fst rs"
  by (simp add: map_update list_update_same_conv)

text \<open>One access of a running work item.\<close>

lemma cache_inv_item_stepped:
  assumes inv: "cache_inv s rs" and m: "m < length rs"
    and step: "prog_step (fst (rs ! m)) (snd (rs ! m)) s = Inr (s', k')"
  shows "cache_inv s' (rs[m := (fst (rs ! m), k')])"
proof -
  define p where "p = fst (rs ! m)"
  define k where "k = snd (rs ! m)"
  note I = cache_invD [OF inv]
  have mem: "(p, k) \<in> set rs"
    using m by (simp add: p_def k_def)
  have fsts: "map fst (rs[m := (p, k')]) = map fst rs"
    unfolding p_def using m by (rule fst_after_step)
  have d: "distinct (map fst rs)"
    using I(7) by simp
  have sub: "r = (p, k') \<or> (r \<in> set rs \<and> fst r \<noteq> p)" if "r \<in> set (rs[m := (p, k')])" for r
    using running_after_step [OF d m] that unfolding p_def by blast
  have pk: "p < info_next s" "prog_ok k"
    using I(4) [OF mem] I(5) [OF mem] by simp_all
  have pe: "slot_empty X i" if "infos s p = Some i" "X \<in> targets k" for i X
    using I(6) [OF mem] that by simp
  have notq: "item_info w \<noteq> p" if "w \<in> set (gameInfoWQ s)" for w
  proof -
    have "item_info w \<in> set (map item_info (gameInfoWQ s))" using that by simp
    moreover have "p \<in> set (map fst rs)" using mem by force
    ultimately show ?thesis using I(7) by auto
  qed
  have step': "prog_step p k s = Inr (s', k')"
    using step by (simp add: p_def k_def)
  show ?thesis
    unfolding p_def [symmetric]
  proof (cases k)
    case Done
    then have e: "s' = s" "k' = k"
      using step' by simp_all
    have "rs[m := (p, k')] = rs"
      unfolding e p_def k_def using m by (simp add: list_update_same_conv)
    then show "cache_inv s' (rs[m := (p, k')])"
      using inv e by simp
  next
    case (IfWantBG k1 k2)
    then have s': "s' = s" and k': "k' = k1 \<or> k' = k2"
      using step' by (auto simp: seq_eq_Inr)
    have ok': "prog_ok k'" and t': "targets k' \<subseteq> targets k"
      using k' pk(2) IfWantBG by auto
    show "cache_inv s' (rs[m := (p, k')])"
      unfolding s'
    proof (rule cache_invI)
      show "distinct (map item_info (gameInfoWQ s) @ map fst (rs[m := (p, k')]))"
        unfolding fsts by (rule I(7))
    next
      fix r assume "r \<in> set (rs[m := (p, k')])"
      then show "fst r < info_next s" using sub [of r] pk(1) I(4) [of r] by auto
    next
      fix r assume "r \<in> set (rs[m := (p, k')])"
      then show "prog_ok (snd r)" using sub [of r] ok' I(5) [of r] by auto
    next
      fix r i X
      assume "r \<in> set (rs[m := (p, k')])" "infos s (fst r) = Some i" "X \<in> targets (snd r)"
      then show "slot_empty X i" using sub [of r] pe [of i X] t' I(6) [of r i X] by auto
    qed (use I in auto)
  next
    case (Write X f k2)
    then obtain i where i: "infos s p = Some i" and
      s': "s' = s\<lparr>infos := (infos s)(p \<mapsto> f i)\<rparr>" and k': "k' = k2"
      using step' by (cases "infos s p") (auto simp: seq_eq_Inr modify_def)
    have w: "writes_only X f" "set_option X \<inter> targets k2 = {}" "prog_ok k2"
      using pk(2) Write by simp_all
    have ex: "slots_exclusive (f i)"
      unfolding slots_exclusive_iff
    proof
      fix Y
      show "slot_data Y (f i) = [] \<or> slot_texture Y (f i) = None"
      proof (cases "X = Some Y")
        case True
        then have "Y \<in> targets k" using Write by simp
        then have "slot_texture Y i = None" using pe [OF i] by (simp add: slot_empty_def)
        then show ?thesis using w(1) by (simp add: writes_only_def)
      next
        case False
        moreover have "slot_data Y i = [] \<or> slot_texture Y i = None"
          using I(1) [OF i] unfolding slots_exclusive_iff by simp
        ultimately show ?thesis
          using w(1) unfolding writes_only_def by metis
      qed
    qed
    have keep: "slot_empty Y (f i)" if "Y \<in> targets k2" for Y
    proof -
      have "X \<noteq> Some Y" using w(2) that by auto
      moreover have "slot_empty Y i" using pe [OF i] that Write by simp
      ultimately show ?thesis using w(1) by (simp add: writes_only_def slot_empty_def)
    qed
    show "cache_inv s' (rs[m := (p, k')])"
      unfolding s' k'
    proof (rule cache_invI)
      show "distinct (map item_info (gameInfoWQ (s\<lparr>infos := (infos s)(p \<mapsto> f i)\<rparr>)) @
              map fst (rs[m := (p, k2)]))"
        using I(7) fsts unfolding k' by simp
    next
      fix q j assume "infos (s\<lparr>infos := (infos s)(p \<mapsto> f i)\<rparr>) q = Some j"
      then show "slots_exclusive j" using ex I(1) by (cases "q = p") auto
    next
      fix w' assume "w' \<in> set (gameInfoWQ (s\<lparr>infos := (infos s)(p \<mapsto> f i)\<rparr>))"
      then show "item_info w' < info_next (s\<lparr>infos := (infos s)(p \<mapsto> f i)\<rparr>)"
        using I(2) by simp
    next
      fix w' j Y
      assume "w' \<in> set (gameInfoWQ (s\<lparr>infos := (infos s)(p \<mapsto> f i)\<rparr>))"
        "infos (s\<lparr>infos := (infos s)(p \<mapsto> f i)\<rparr>) (item_info w') = Some j"
      then show "slot_empty Y j" using notq [of w'] I(3) [of w'] by simp
    next
      fix r assume "r \<in> set (rs[m := (p, k2)])"
      then show "fst r < info_next (s\<lparr>infos := (infos s)(p \<mapsto> f i)\<rparr>)"
        using sub [of r] pk(1) I(4) [of r] unfolding k' by auto
    next
      fix r assume "r \<in> set (rs[m := (p, k2)])"
      then show "prog_ok (snd r)" using sub [of r] w(3) I(5) [of r] unfolding k' by auto
    next
      fix r j Y
      assume "r \<in> set (rs[m := (p, k2)])"
        "infos (s\<lparr>infos := (infos s)(p \<mapsto> f i)\<rparr>) (fst r) = Some j" "Y \<in> targets (snd r)"
      then show "slot_empty Y j" using sub [of r] keep [of Y] I(6) [of r j Y] unfolding k' by auto
    qed
  qed
qed

lemma reachable_inv:
  assumes "reachable ext s rs" and fresh: "\<And>p. \<not> new_reuses_deleted ext p"
  shows "cache_inv s rs"
  using assms(1)
proof (induction rule: reachable.induct)
  case init
  show ?case by (rule cache_inv_init)
next
  case (created s rs k bg)
  then show ?case by (simp add: cache_inv_create)
next
  case (started_over s rs k p i)
  then show ?case
    by (simp add: create_not_reused [OF fresh] cache_inv_create cache_inv_delete)
next
  case (icon_decoded s rs k p s')
  then show ?case by (blast intro: cache_inv_decode_icon)
next
  case (pic0_decoded s rs k p s')
  then show ?case by (blast intro: cache_inv_decode_pic0)
next
  case (pic1_decoded s rs k p s')
  then show ?case by (blast intro: cache_inv_decode_pic1)
next
  case (touched s rs k p s')
  then show ?case by (blast intro: cache_inv_touch)
next
  case (released s rs k p s')
  then show ?case by (blast intro: cache_inv_release)
next
  case (map_cleared s rs)
  then show ?case by (simp add: cache_inv_clear_map)
next
  case (item_started s rs n)
  then show ?case by (simp add: cache_inv_item_started)
next
  case (item_stepped s rs m s' k')
  then show ?case by (simp add: cache_inv_item_stepped)
qed

text \<open>
  With such an allocator each of the three slots of each live record has an empty buffer or
  a null texture pointer, in every state reachable by lock scopes of the cache's operations
  and single accesses of running work items, in any interleaving. And for any allocator the
  lock scope that decodes a slot installs the texture and clears the buffer together: run
  on a record without a slot that holds both and with raw bytes that decode, it ends with
  the buffer of that slot empty and its texture pointer non-null.
\<close>

lemma slots_exclusive_without_reuse:
  assumes "reachable ext s rs" and "\<And>p. \<not> new_reuses_deleted ext p" and "infos s p = Some i"
  shows "slots_exclusive i"
  using reachable_inv [OF assms(1,2)] assms(3) by (simp add: cache_inv_def)

lemma decode_clears_buffer_with_texture:
  assumes "infos s p = Some i" and "slots_exclusive i"
  shows
    "iconTextureData i \<noteq> [] \<and> LoadPNG ext (iconTextureData i) \<longrightarrow>
       (\<exists>s' i'. decode_icon ext p s = Inr s' \<and> infos s' p = Some i' \<and>
          iconTextureData i' = [] \<and> iconTexture i' \<noteq> None \<and> slots_exclusive i')"
    "pic0TextureData i \<noteq> [] \<and> LoadPNG ext (pic0TextureData i) \<longrightarrow>
       (\<exists>s' i'. decode_pic0 ext p s = Inr s' \<and> infos s' p = Some i' \<and>
          pic0TextureData i' = [] \<and> pic0Texture i' \<noteq> None \<and> slots_exclusive i')"
    "pic1TextureData i \<noteq> [] \<and> LoadPNG ext (pic1TextureData i) \<longrightarrow>
       (\<exists>s' i'. decode_pic1 ext p s = Inr s' \<and> infos s' p = Some i' \<and>
          pic1TextureData i' = [] \<and> pic1Texture i' \<noteq> None \<and> slots_exclusive i')"
  using assms(2)
  by (auto simp: decode_icon_live [OF assms(1)] decode_pic0_live [OF assms(1)]
      decode_pic1_live [OF assms(1)] slots_exclusive_def)

section \<open>Records whose work item loads nothing\<close>



















section \<open>The work item's dispatch\<close>






text \<open>
  Claim C4, as the spec states it: when the block device cannot be constructed, every field
  of the record, its kind included, is as before the run. It fails for the kind: the work
  item assigns \<^verbatim>\<open>FILETYPE_PSP_ISO\<close> before it tries to construct the device.
\<close>

theorem failed_block_device_counterexample:
  "\<not> startsWith ''game.iso'' ''ms0:/PSP/GAME'' \<and> \<not> endsWith ''game.iso'' ''.PBP'' \<and>
   \<not> endsWith ''game.iso'' ''.elf'' \<and> \<not> endsWith ''game.iso'' ''.prx'' \<and>
   \<not> constructBlockDevice sample_ext ''game.iso'' \<and>
   map_option fileType (infos (cache_with ''game.iso'' False) 0) = Some FILETYPE_UNKNOWN \<and>
   map_sum id (\<lambda>s. map_option fileType (infos s 0))
     (run sample_ext \<lparr>item_gamePath = ''game.iso'', item_info = 0\<rparr> (cache_with ''game.iso'' False))
     = Inr (Some FILETYPE_PSP_ISO)"
  by (simp add: run_def startsWith_def endsWith_def cache_with_eq GameInfo_new_def
      sample_ext_def modify_live seq_Inr)

text \<open>
  Claim C4, amended: for every key that the dispatch treats as a disc image (no
  \<^verbatim>\<open>ms0:/PSP/GAME\<close> prefix, no \<^verbatim>\<open>.PBP\<close>, \<^verbatim>\<open>.elf\<close> or \<^verbatim>\<open>.prx\<close> suffix), if the block device
  cannot be constructed the work item stops having set the kind of its record to
  \<^verbatim>\<open>FILETYPE_PSP_ISO\<close>; every other field of the record, and the rest of the state, is as
  before the run.
\<close>

theorem failed_block_device_sets_kind_only:
  assumes "\<not> startsWith path ''ms0:/PSP/GAME''"
    and "\<not> endsWith path ''.PBP''"
    and "\<not> endsWith path ''.elf''"
    and "\<not> endsWith path ''.prx''"
    and "\<not> constructBlockDevice ext path"
    and "infos s p = Some i"
  shows "run ext \<lparr>item_gamePath = path, item_info = p\<rparr> s
         = Inr (s\<lparr>infos := (infos s)(p \<mapsto> i\<lparr>fileType := FILETYPE_PSP_ISO\<rparr>)\<rparr>)"
  using assms by (simp add: run_def modify_live seq_Inr)

theorem failed_block_device_sets_kind_only_witness:
  "\<not> startsWith ''game.iso'' ''ms0:/PSP/GAME'' \<and> \<not> endsWith ''game.iso'' ''.PBP'' \<and>
   \<not> endsWith ''game.iso'' ''.elf'' \<and> \<not> endsWith ''game.iso'' ''.prx'' \<and>
   \<not> constructBlockDevice sample_ext ''game.iso'' \<and>
   infos (cache_with ''game.iso'' True) 0 = Some (GameInfo_new\<lparr>wantBG := True\<rparr>) \<and>
   run sample_ext \<lparr>item_gamePath = ''game.iso'', item_info = 0\<rparr> (cache_with ''game.iso'' True)
     = Inr ((cache_with ''game.iso'' True)
          \<lparr>infos := (infos (cache_with ''game.iso'' True))
             (0 \<mapsto> GameInfo_new\<lparr>wantBG := True, fileType := FILETYPE_PSP_ISO\<rparr>)\<rparr>)"
  using failed_block_device_sets_kind_only
    [of "''game.iso''" sample_ext "cache_with ''game.iso'' True" 0 "GameInfo_new\<lparr>wantBG := True\<rparr>"]
  by (simp add: startsWith_def endsWith_def cache_with_eq sample_ext_def)

end
